theory Spec2Isabelle
  imports Complex_Main "HOL-Library.Word"
begin

unbundle bit_operations_syntax

section \<open>Data model of \<open>References/bgwxfb.py\<close>\<close>

text \<open>
  The class \<open>Bgwxfb\<close> renders audio blocks onto an RGB565 framebuffer. A pixel is a
  \<open>numpy.uint16\<close>, a frame is a two-dimensional array of shape \<open>(height, width)\<close>, kept
  here as the list of its rows. Python floats are read as the real numbers they denote;
  Python's unbounded integers are \<open>int\<close>; lengths and indices that are never negative
  are \<open>nat\<close>.
\<close>

type_synonym pixel = "16 word"
type_synonym frame = "pixel list list"

datatype py_error = AttributeError | ValueError | IndexError

text \<open>
  The merged settings and the geometry read at start-up. \<open>cfg_ratio\<close> and
  \<open>cfg_offset\<close> are the values before clamping.
\<close>

record settings =
  cfg_freq :: bool
  cfg_blend :: bool
  cfg_mixed :: bool
  cfg_random :: bool
  cfg_reshuffle :: bool
  cfg_partial :: bool
  cfg_ratio :: real
  cfg_offset :: real
  cfg_blocksize :: nat
  cfg_width :: nat
  cfg_height :: nat

text \<open>
  The instance attributes. \<open>blend_inv\<close> and \<open>blend_coef\<close> stand for the attributes
  \<open>_blend_inv\<close> and \<open>_blend_coef\<close> that \<open>write_blended\<close> reads: \<open>None\<close> means that the
  instance has no such attribute, so that reading it raises \<open>AttributeError\<close>.
\<close>

record bgwxfb =
  use_black_and_white :: bool
  use_frequency_mode :: bool
  use_blend_mode :: bool
  use_mixed_raw :: bool
  use_random_map :: bool
  reshuffle_each_frame :: bool
  blend_ratio :: real
  use_partial_update :: bool
  amplitude_offset :: real
  blocksize :: nat
  width :: nat
  height :: nat
  interp_x :: "real list"
  fb_array :: frame
  prev_frame :: frame
  random_map :: "nat list"
  hue_lut :: "pixel list"
  blend_inv :: "pixel option"
  blend_coef :: "pixel option"

subsection \<open>numpy helpers\<close>

text \<open>\<open>np.linspace(0, stop, num, endpoint=False)\<close>: \<open>num\<close> points \<open>i * (stop / num)\<close>.\<close>

definition linspace_open :: "real \<Rightarrow> nat \<Rightarrow> real list" where
  "linspace_open stop num = map (\<lambda>i. real i * (stop / real num)) [0..<num]"

text \<open>\<open>a.reshape((h, w))\<close> of a flat array: row-major, \<open>ValueError\<close> on a size mismatch.\<close>

definition reshape2 :: "nat \<Rightarrow> nat \<Rightarrow> 'a list \<Rightarrow> py_error + 'a list list" where
  "reshape2 h w xs =
     (if length xs = h * w
      then Inr (map (\<lambda>r. take w (drop (r * w) xs)) [0..<h])
      else Inl ValueError)"

text \<open>\<open>np.zeros_like(a)\<close> for a frame.\<close>

definition zeros_like :: "frame \<Rightarrow> frame" where
  "zeros_like a = map (\<lambda>row. map (\<lambda>_. 0) row) a"

text \<open>
  \<open>a[idx] = vals\<close> for an index array: every index must be in range (\<open>IndexError\<close>
  otherwise); the assignments happen in order, so the last one wins on a repeated index.
\<close>

fun scatter :: "'a list \<Rightarrow> (nat \<times> 'a) list \<Rightarrow> py_error + 'a list" where
  "scatter a [] = Inr a"
| "scatter a ((i, v) # rest) =
     (if i < length a then scatter (a[i := v]) rest else Inl IndexError)"

text \<open>\<open>a[idx]\<close> for an index array: \<open>IndexError\<close> when an index is out of range.\<close>

definition gather :: "'a list \<Rightarrow> nat list \<Rightarrow> py_error + 'a list" where
  "gather a idx =
     (if \<forall>i \<in> set idx. i < length a then Inr (map (\<lambda>i. a ! i) idx) else Inl IndexError)"

text \<open>Python's \<open>int(x)\<close> on a float: truncation towards zero.\<close>

definition py_int :: "real \<Rightarrow> int" where
  "py_int x = (if 0 \<le> x then \<lfloor>x\<rfloor> else \<lceil>x\<rceil>)"

text \<open>
  \<open>np.random.permutation(n)\<close> is a library function: it fills an array with
  \<open>arange(n)\<close> and shuffles it in place with the loop of \<open>shuffle\<close>, which for
  \<open>i = n - 1\<close> down to 1 draws \<open>j\<close> in \<open>[0, i]\<close> and swaps the entries \<open>i\<close> and \<open>j\<close>.
  The generator is the free input: \<open>rnd i\<close> is the raw number drawn at position \<open>i\<close>, and
  \<open>rnd i mod (i + 1)\<close> the bounded draw, so that every outcome of the library is the
  outcome of some \<open>rnd\<close>.
\<close>

definition swap_entries :: "nat \<Rightarrow> nat \<Rightarrow> 'a list \<Rightarrow> 'a list" where
  "swap_entries i j xs = xs[i := xs ! j, j := xs ! i]"

fun np_shuffle :: "(nat \<Rightarrow> nat) \<Rightarrow> nat \<Rightarrow> nat list \<Rightarrow> nat list" where
  "np_shuffle rnd 0 xs = xs"
| "np_shuffle rnd (Suc i) xs =
     np_shuffle rnd i (swap_entries (Suc i) (rnd (Suc i) mod (Suc i + 1)) xs)"

definition np_permutation :: "(nat \<Rightarrow> nat) \<Rightarrow> nat \<Rightarrow> nat list" where
  "np_permutation rnd n = np_shuffle rnd (n - 1) [0..<n]"

subsection \<open>Construction\<close>

text \<open>
  \<open>Bgwxfb.__init__\<close>, after argument parsing and device discovery: \<open>surface\<close> is the
  content of the mapped framebuffer, \<open>rnd0\<close> the random numbers that
  \<open>np.random.permutation(n_pixels)\<close> draws, \<open>lut\<close> the 360 entries that
  \<open>_hsv_to_rgb565_base\<close> computes in floating point. No statement of \<open>__init__\<close>, and no
  other statement of the program, assigns \<open>_blend_inv\<close> or \<open>_blend_coef\<close>.
\<close>

definition Bgwxfb_init ::
  "settings \<Rightarrow> frame \<Rightarrow> (nat \<Rightarrow> nat) \<Rightarrow> pixel list \<Rightarrow> bgwxfb" where
  "Bgwxfb_init cfg surface rnd0 lut =
     \<lparr> use_black_and_white = False,
       use_frequency_mode = cfg_freq cfg,
       use_blend_mode = cfg_blend cfg,
       use_mixed_raw = cfg_mixed cfg,
       use_random_map = cfg_random cfg,
       reshuffle_each_frame = cfg_reshuffle cfg,
       blend_ratio = max 0 (min 1 (cfg_ratio cfg)),
       use_partial_update = cfg_partial cfg,
       amplitude_offset = max (- 1) (min 1 (cfg_offset cfg)),
       blocksize = cfg_blocksize cfg,
       width = cfg_width cfg,
       height = cfg_height cfg,
       interp_x = linspace_open (real (cfg_blocksize cfg div 2 + 1))
                    (cfg_width cfg * cfg_height cfg),
       fb_array = surface,
       prev_frame = zeros_like surface,
       random_map = np_permutation rnd0 (cfg_width cfg * cfg_height cfg),
       hue_lut = lut,
       blend_inv = None,
       blend_coef = None \<rparr>"

subsection \<open>Color Mapper\<close>

text \<open>
  \<open>float_to_rgb565(h, v)\<close>. \<open>h % 1.0\<close> is the fractional part; the table lookup raises
  \<open>IndexError\<close> outside the table.
\<close>

definition float_to_rgb565 :: "bgwxfb \<Rightarrow> real \<Rightarrow> real \<Rightarrow> py_error + int" where
  "float_to_rgb565 s h v =
     (if use_black_and_white s then
        (let gray = py_int (v * 31) AND 0x1F
         in Inr (push_bit 11 gray OR push_bit 5 (push_bit 1 gray) OR gray))
      else
        (let k = nat (py_int (frac h * 360)) in
         if k < length (hue_lut s) then
           (let base = hue_lut s ! k;
                r5 = drop_bit 11 base AND 0x1F;
                g6 = drop_bit 5 base AND 0x3F;
                b5 = base AND 0x1F
            in Inr (push_bit 11 (py_int (real (unat r5) * v) AND 0x1F)
                 OR push_bit 5 (py_int (real (unat g6) * v) AND 0x3F)
                 OR (py_int (real (unat b5) * v) AND 0x1F)))
         else Inl IndexError))"

subsection \<open>Compositor\<close>

text \<open>The raw strategy of \<open>audio_callback\<close>: \<open>interp[:n_pixels].reshape((height, width))\<close>.\<close>

definition raw_direct :: "bgwxfb \<Rightarrow> pixel list \<Rightarrow> py_error + frame" where
  "raw_direct s interp = reshape2 (height s) (width s) (take (width s * height s) interp)"

text \<open>
  The two target offsets of \<open>write_pixelwise_mixed\<close>: \<open>y_e*width + x_e\<close> with
  \<open>x_e = idx // height\<close>, \<open>y_e = idx % height\<close> for an even source index, and
  \<open>y_o*width + x_o\<close> with \<open>y_o = idx // width\<close>, \<open>x_o = idx % width\<close> for an odd one.
\<close>

definition even_offset :: "nat \<Rightarrow> nat \<Rightarrow> nat \<Rightarrow> nat" where
  "even_offset w h idx = (idx mod h) * w + idx div h"

definition odd_offset :: "nat \<Rightarrow> nat \<Rightarrow> nat \<Rightarrow> nat" where
  "odd_offset w h idx = (idx div w) * w + idx mod w"

definition write_pixelwise_mixed :: "bgwxfb \<Rightarrow> pixel list \<Rightarrow> py_error + frame" where
  "write_pixelwise_mixed s interp =
     (let flat = take (width s * height s) interp;
          idx = [0..<length flat];
          mixed = map (\<lambda>_. 0) flat;
          evens = filter even idx;
          odds = filter odd idx
      in case scatter mixed
                (map (\<lambda>i. (even_offset (width s) (height s) i, flat ! i)) evens) of
           Inl e \<Rightarrow> Inl e
         | Inr mixed1 \<Rightarrow>
             (case scatter mixed1
                     (map (\<lambda>i. (odd_offset (width s) (height s) i, flat ! i)) odds) of
                Inl e \<Rightarrow> Inl e
              | Inr mixed2 \<Rightarrow> reshape2 (height s) (width s) mixed2))"

text \<open>
  The per-pixel arithmetic of \<open>write_blended\<close> on \<open>uint16\<close> values: the three channels
  are taken apart, weighted, shifted right by 8, masked and packed again.
\<close>

definition blend_pixel :: "pixel \<Rightarrow> pixel \<Rightarrow> pixel \<Rightarrow> pixel \<Rightarrow> pixel" where
  "blend_pixel binv bcoef raw mixed =
     (let raw_r = drop_bit 11 raw AND 0x1F; raw_g = drop_bit 5 raw AND 0x3F;
          raw_b = raw AND 0x1F;
          mix_r = drop_bit 11 mixed AND 0x1F; mix_g = drop_bit 5 mixed AND 0x3F;
          mix_b = mixed AND 0x1F;
          br = drop_bit 8 (raw_r * binv + mix_r * bcoef);
          bg = drop_bit 8 (raw_g * binv + mix_g * bcoef);
          bb = drop_bit 8 (raw_b * binv + mix_b * bcoef)
      in push_bit 11 (br AND 0x1F) OR push_bit 5 (bg AND 0x3F) OR (bb AND 0x1F))"

definition gray_collapse :: "pixel \<Rightarrow> pixel" where
  "gray_collapse blended =
     (let gray5 = ((blended * 31) div 65535) AND 0x1F;
          gray6 = ((blended * 63) div 65535) AND 0x3F
      in push_bit 11 gray5 OR push_bit 5 gray6 OR gray5)"

definition write_blended :: "bgwxfb \<Rightarrow> pixel list \<Rightarrow> py_error + frame" where
  "write_blended s interp =
     (case reshape2 (height s) (width s) (take (width s * height s) interp) of
        Inl e \<Rightarrow> Inl e
      | Inr raw \<Rightarrow>
         (case write_pixelwise_mixed s interp of
            Inl e \<Rightarrow> Inl e
          | Inr mixed \<Rightarrow>
             if blend_ratio s \<le> 0 then Inr raw
             else if 1 \<le> blend_ratio s then Inr mixed
             else
               (case blend_inv s of
                  None \<Rightarrow> Inl AttributeError
                | Some binv \<Rightarrow>
                   (case blend_coef s of
                      None \<Rightarrow> Inl AttributeError
                    | Some bcoef \<Rightarrow>
                       (let blended = map2 (map2 (blend_pixel binv bcoef)) raw mixed
                        in Inr (if use_black_and_white s
                                then map (map gray_collapse) blended
                                else blended))))))"

subsection \<open>Signal Extractor\<close>

text \<open>
  \<open>np.fft.rfft\<close> is a library function. Its documented result for a real input of
  \<open>n\<close> samples is the first \<open>n // 2 + 1\<close> terms of the discrete Fourier transform,
  \<open>A[k] = sum over m of a[m] * exp(-2 pi i m k / n)\<close>; it raises \<open>ValueError\<close> on an empty
  input. It is stated here in exact arithmetic.
\<close>

definition rfft :: "real list \<Rightarrow> py_error + complex list" where
  "rfft buf =
     (if buf = [] then Inl ValueError
      else Inr (map (\<lambda>k. \<Sum>m < length buf.
                        of_real (buf ! m)
                          * cis (- 2 * pi * real m * real k / real (length buf)))
                  [0..<length buf div 2 + 1]))"

text \<open>\<open>amp.max() or 1.0\<close>: the maximum, replaced by 1.0 when it is zero.\<close>

definition norm_divisor :: "real list \<Rightarrow> real" where
  "norm_divisor amp = (let m = Max (set amp) in if m = 0 then 1 else m)"

text \<open>
  The first stage of \<open>audio_callback\<close>: the magnitude spectrum divided by
  \<open>norm_divisor\<close> in frequency mode, \<open>np.clip(np.abs(buf) + offset, 0, 1)\<close> otherwise.
\<close>

definition signal_extract :: "bgwxfb \<Rightarrow> real list \<Rightarrow> py_error + real list" where
  "signal_extract s buf =
     (if use_frequency_mode s then
        (case rfft buf of
           Inl e \<Rightarrow> Inl e
         | Inr fft \<Rightarrow>
            (let amp = map cmod fft;
                 maxv = norm_divisor amp
             in Inr (map (\<lambda>a. a / maxv) amp)))
      else Inr (map (\<lambda>x. min 1 (max 0 (\<bar>x\<bar> + amplitude_offset s))) buf))"

text \<open>
  The list comprehension over \<open>float_to_rgb565\<close>, stored as a \<open>uint16\<close> array. The first
  call that raises ends the comprehension.
\<close>

fun collect :: "(py_error + 'a) list \<Rightarrow> py_error + 'a list" where
  "collect [] = Inr []"
| "collect (Inl e # _) = Inl e"
| "collect (Inr x # rest) = (case collect rest of Inl e \<Rightarrow> Inl e | Inr xs \<Rightarrow> Inr (x # xs))"

definition color_map :: "bgwxfb \<Rightarrow> real list \<Rightarrow> py_error + pixel list" where
  "color_map s amp =
     (case collect (map (\<lambda>i. float_to_rgb565 s (real i / real (length amp)) (amp ! i))
                      [0..<length amp]) of
        Inl e \<Rightarrow> Inl e
      | Inr cs \<Rightarrow> Inr (map word_of_int cs))"

subsection \<open>Spatial Interpolator\<close>

text \<open>
  \<open>np.interp(x, np.arange(len(fp)), fp)\<close> at one point \<open>x\<close>, for a non-empty \<open>fp\<close>: the
  first value at or before index 0, the last value at or after the last index, and
  \<open>slope * (x - j) + fp[j]\<close> between the neighbouring indices \<open>j\<close> and \<open>j + 1\<close>.
\<close>

definition np_interp_arange :: "real list \<Rightarrow> real \<Rightarrow> real" where
  "np_interp_arange fp x =
     (let n = length fp in
      if x \<le> 0 then fp ! 0
      else if real (n - 1) \<le> x then fp ! (n - 1)
      else (let j = nat \<lfloor>x\<rfloor> in (fp ! (j + 1) - fp ! j) * (x - real j) + fp ! j))"

text \<open>
  \<open>np.interp(self.interp_x, np.arange(len(rgb)), rgb).astype(np.uint16)\<close>; \<open>np.interp\<close>
  raises \<open>ValueError\<close> on an empty array of sample points.
\<close>

definition spatial_interp :: "bgwxfb \<Rightarrow> pixel list \<Rightarrow> py_error + pixel list" where
  "spatial_interp s rgb =
     (if rgb = [] then Inl ValueError
      else Inr (map (\<lambda>x. word_of_int (py_int (np_interp_arange (map (\<lambda>p. real (unat p)) rgb) x)))
                  (interp_x s)))"

subsection \<open>Frame Committer\<close>

text \<open>\<open>new_frame != self.prev_frame\<close>, element by element, for two arrays of one shape.\<close>

definition diff_mask :: "frame \<Rightarrow> frame \<Rightarrow> bool list list" where
  "diff_mask new_frame prev = map2 (map2 (\<lambda>a b. a \<noteq> b)) new_frame prev"

text \<open>\<open>np.where(bs)[0]\<close>: the indices of the true entries, in increasing order.\<close>

definition np_where :: "bool list \<Rightarrow> nat list" where
  "np_where bs = filter (\<lambda>i. bs ! i) [0..<length bs]"

text \<open>\<open>a[[0, -1]]\<close>: the first and the last entry; \<open>IndexError\<close> on an empty array.\<close>

definition first_last :: "nat list \<Rightarrow> py_error + nat \<times> nat" where
  "first_last xs = (case xs of [] \<Rightarrow> Inl IndexError | _ # _ \<Rightarrow> Inr (hd xs, last xs))"

text \<open>The slice \<open>xs[a:b]\<close>.\<close>

definition slice :: "nat \<Rightarrow> nat \<Rightarrow> 'a list \<Rightarrow> 'a list" where
  "slice a b xs = take (b - a) (drop a xs)"

text \<open>
  \<open>fb[r0:r1+1, c0:c1+1] = new_frame[r0:r1+1, c0:c1+1]\<close>, for two arrays of shape
  \<open>(height, width)\<close>.
\<close>

definition assign_rect :: "frame \<Rightarrow> frame \<Rightarrow> nat \<Rightarrow> nat \<Rightarrow> nat \<Rightarrow> nat \<Rightarrow> frame" where
  "assign_rect fb new_frame r0 r1 c0 c1 =
     take r0 fb
     @ map2 (\<lambda>row nrow. take c0 row @ slice c0 (c1 + 1) nrow @ drop (c1 + 1) row)
         (slice r0 (r1 + 1) fb) (slice r0 (r1 + 1) new_frame)
     @ drop (r1 + 1) fb"

text \<open>
  The method \<open>prev_frame_update\<close>. (The record package owns the name
  \<open>prev_frame_update\<close> for the field \<open>prev_frame\<close>, hence the suffix.)
\<close>

definition prev_frame_update_fn :: "bgwxfb \<Rightarrow> frame \<Rightarrow> py_error + bgwxfb" where
  "prev_frame_update_fn s new_frame =
     (let diff = diff_mask new_frame (prev_frame s) in
      if \<not> list_ex (list_ex (\<lambda>b. b)) diff then Inr s
      else
        (let rows = map (list_ex (\<lambda>b. b)) diff;
             cols = map (\<lambda>c. list_ex (\<lambda>row. row ! c) diff) [0..<width s]
         in case first_last (np_where rows) of
              Inl e \<Rightarrow> Inl e
            | Inr (r0, r1) \<Rightarrow>
               (case first_last (np_where cols) of
                  Inl e \<Rightarrow> Inl e
                | Inr (c0, c1) \<Rightarrow>
                    Inr (s\<lparr> fb_array := assign_rect (fb_array s) new_frame r0 r1 c0 c1,
                            prev_frame := new_frame \<rparr>))))"

text \<open>The last stage of \<open>audio_callback\<close>: partial update, or \<open>np.copyto\<close> of the frame.\<close>

definition commit :: "bgwxfb \<Rightarrow> frame \<Rightarrow> py_error + bgwxfb" where
  "commit s f =
     (if use_partial_update s then prev_frame_update_fn s f
      else Inr (s\<lparr> fb_array := f \<rparr>))"

subsection \<open>Pipeline Driver\<close>

text \<open>
  The strategy choice of \<open>audio_callback\<close>. \<open>rnd\<close> holds the random numbers that
  \<open>np.random.permutation(n_pixels)\<close> draws when the frame asks for a reshuffle.
\<close>

definition compose ::
  "bgwxfb \<Rightarrow> pixel list \<Rightarrow> (nat \<Rightarrow> nat) \<Rightarrow> py_error + bgwxfb \<times> frame" where
  "compose s interp rnd =
     (let n_pixels = width s * height s in
      if use_random_map s then
        (let flat = take n_pixels interp;
             s' = (if reshuffle_each_frame s
                   then s\<lparr> random_map := np_permutation rnd n_pixels \<rparr> else s)
         in case gather flat (random_map s') of
              Inl e \<Rightarrow> Inl e
            | Inr g \<Rightarrow>
               (case reshape2 (height s) (width s) g of
                  Inl e \<Rightarrow> Inl e
                | Inr f \<Rightarrow> Inr (s', f)))
      else if use_blend_mode s then
        (case write_blended s interp of Inl e \<Rightarrow> Inl e | Inr f \<Rightarrow> Inr (s, f))
      else if use_mixed_raw s then
        (case write_pixelwise_mixed s interp of Inl e \<Rightarrow> Inl e | Inr f \<Rightarrow> Inr (s, f))
      else
        (case raw_direct s interp of Inl e \<Rightarrow> Inl e | Inr f \<Rightarrow> Inr (s, f)))"

text \<open>
  \<open>audio_callback\<close> on the first channel \<open>buf\<close> of a block. The timing and the frame
  counter, which only feed the debug output, are left out.
\<close>

definition audio_callback ::
  "bgwxfb \<Rightarrow> real list \<Rightarrow> (nat \<Rightarrow> nat) \<Rightarrow> py_error + bgwxfb" where
  "audio_callback s buf rnd =
     (case signal_extract s buf of
        Inl e \<Rightarrow> Inl e
      | Inr amp \<Rightarrow>
         (case color_map s amp of
            Inl e \<Rightarrow> Inl e
          | Inr rgb \<Rightarrow>
             (case spatial_interp s rgb of
                Inl e \<Rightarrow> Inl e
              | Inr interp \<Rightarrow>
                 (case compose s interp rnd of
                    Inl e \<Rightarrow> Inl e
                  | Inr (s', f) \<Rightarrow> commit s' f))))"

text \<open>The input stream: one callback per block, until one raises.\<close>

fun stream :: "bgwxfb \<Rightarrow> (real list \<times> (nat \<Rightarrow> nat)) list \<Rightarrow> py_error + bgwxfb" where
  "stream s [] = Inr s"
| "stream s ((buf, rnd) # rest) =
     (case audio_callback s buf rnd of Inl e \<Rightarrow> Inl e | Inr s' \<Rightarrow> stream s' rest)"

text \<open>\<open>run\<close>: the surface is cleared (\<open>self.fb_array[:,:] = 0\<close>), then the stream starts.\<close>

definition run :: "bgwxfb \<Rightarrow> (real list \<times> (nat \<Rightarrow> nat)) list \<Rightarrow> py_error + bgwxfb" where
  "run s blocks = stream (s\<lparr> fb_array := zeros_like (fb_array s) \<rparr>) blocks"

section \<open>Notions of the specification\<close>

text \<open>An array of shape \<open>(h, w)\<close>.\<close>

definition frame_ok :: "nat \<Rightarrow> nat \<Rightarrow> 'a list list \<Rightarrow> bool" where
  "frame_ok h w f \<longleftrightarrow> length f = h \<and> (\<forall>row \<in> set f. length row = w)"

text \<open>The pixel in row \<open>r\<close> and column \<open>c\<close> differs between two frames.\<close>

definition differs :: "frame \<Rightarrow> frame \<Rightarrow> nat \<Rightarrow> nat \<Rightarrow> bool" where
  "differs a b r c \<longleftrightarrow> a ! r ! c \<noteq> b ! r ! c"

text \<open>
  The minimal bounding rectangle of a set \<open>D\<close> of pixels: it covers every pixel of \<open>D\<close>,
  and each of its four edges holds a pixel of \<open>D\<close>, so that no edge can move inwards.
\<close>

definition bounding_rect ::
  "nat \<Rightarrow> nat \<Rightarrow> (nat \<Rightarrow> nat \<Rightarrow> bool) \<Rightarrow> nat \<Rightarrow> nat \<Rightarrow> nat \<Rightarrow> nat \<Rightarrow> bool" where
  "bounding_rect h w D r0 r1 c0 c1 \<longleftrightarrow>
     r0 \<le> r1 \<and> r1 < h \<and> c0 \<le> c1 \<and> c1 < w
     \<and> (\<forall>r \<in> {0..<h}. \<forall>c \<in> {0..<w}. D r c \<longrightarrow> r0 \<le> r \<and> r \<le> r1 \<and> c0 \<le> c \<and> c \<le> c1)
     \<and> (\<exists>c \<in> {0..<w}. D r0 c) \<and> (\<exists>c \<in> {0..<w}. D r1 c)
     \<and> (\<exists>r \<in> {0..<h}. D r c0) \<and> (\<exists>r \<in> {0..<h}. D r c1)"

text \<open>A permutation of \<open>[0, n)\<close>: no index repeats and none is missing.\<close>

definition is_permutation :: "nat \<Rightarrow> nat list \<Rightarrow> bool" where
  "is_permutation n m \<longleftrightarrow> distinct m \<and> set m = {0..<n}"

definition perm_inv :: "bgwxfb \<Rightarrow> bool" where
  "perm_inv s \<longleftrightarrow> is_permutation (width s * height s) (random_map s)"

section \<open>Example configurations\<close>

text \<open>
  A 2 by 2 screen with block size 4 in amplitude mode, blend mode on with the default
  ratio 0.5, partial updates on.
\<close>

definition demo_cfg :: settings where
  "demo_cfg = \<lparr> cfg_freq = False, cfg_blend = True, cfg_mixed = False, cfg_random = False,
       cfg_reshuffle = False, cfg_partial = True, cfg_ratio = 1 / 2, cfg_offset = 0,
       cfg_blocksize = 4, cfg_width = 2, cfg_height = 2 \<rparr>"

definition demo_state :: bgwxfb where
  "demo_state = Bgwxfb_init demo_cfg [[0, 0], [0, 0]] (\<lambda>_. 0) []"

text \<open>A 3 by 3 screen whose previous frame is all ones, and a frame for it.\<close>

definition commit_state :: bgwxfb where
  "commit_state =
     (Bgwxfb_init (demo_cfg\<lparr> cfg_width := 3, cfg_height := 3 \<rparr>)
        [[9, 9, 9], [9, 9, 9], [9, 9, 9]] (\<lambda>_. 0) [])
     \<lparr> prev_frame := [[1, 1, 1], [1, 1, 1], [1, 1, 1]] \<rparr>"

definition commit_frame :: frame where
  "commit_frame = [[1, 2, 1], [1, 1, 1], [1, 1, 3]]"

text \<open>Random-map mode with a reshuffle on every frame, and an all-white hue table.\<close>

definition rand_cfg :: settings where
  "rand_cfg = demo_cfg\<lparr> cfg_random := True, cfg_reshuffle := True \<rparr>"

definition rand_state :: bgwxfb where
  "rand_state = Bgwxfb_init rand_cfg [[0, 0], [0, 0]] (\<lambda>_. 0) (replicate 360 0xFFFF)"

text \<open>
  Amplitude mode with block size 8 on a 2 by 2 screen, raw strategy, partial updates,
  and an all-white hue table.
\<close>

definition half_cfg :: settings where
  "half_cfg = demo_cfg\<lparr> cfg_blend := False, cfg_blocksize := 8 \<rparr>"

definition half_state :: bgwxfb where
  "half_state = Bgwxfb_init half_cfg [[0, 0], [0, 0]] (\<lambda>_. 0) (replicate 360 0xFFFF)"

section \<open>Properties\<close>

subsection \<open>Mixed compositor: target offsets\<close>

lemma even_offset_bound:
  assumes "idx < w * h"
  shows "even_offset w h idx < w * h"
proof -
  have hpos: "0 < h" using assms by (cases h) auto
  have x: "idx div h < w"
    using assms hpos by (simp add: less_mult_imp_div_less mult.commute)
  have y: "idx mod h < h" using hpos by simp
  then have "Suc (idx mod h) \<le> h" by simp
  then have "Suc (idx mod h) * w \<le> h * w" by (rule mult_le_mono1)
  then have "(idx mod h) * w + w \<le> w * h" by (simp add: mult.commute)
  with x show ?thesis by (simp add: even_offset_def)
qed

lemma odd_offset_bound:
  assumes "idx < w * h"
  shows "odd_offset w h idx < w * h"
  using assms by (simp add: odd_offset_def)

text \<open>
  C9. For every width \<open>\<ge> 1\<close>, height \<open>\<ge> 1\<close> and source index below \<open>width*height\<close>, the
  target offset of an even index and the target offset of an odd index are both below
  \<open>width*height\<close>: every write of the mixed compositor is inside the output array.
\<close>

theorem mixed_offsets_in_bounds:
  assumes "1 \<le> w" and "1 \<le> h" and "idx < w * h"
  shows "(even idx \<longrightarrow> even_offset w h idx < w * h)
       \<and> (odd idx \<longrightarrow> odd_offset w h idx < w * h)"
  using assms even_offset_bound odd_offset_bound by blast

theorem mixed_offsets_in_bounds_witness:
  "(1::nat) \<le> 3 \<and> (1::nat) \<le> 2 \<and> (4::nat) < 3 * 2 \<and> even_offset 3 2 4 = 2
   \<and> even_offset 3 2 4 < 3 * 2 \<and> odd_offset 3 2 5 = 5 \<and> odd_offset 3 2 5 < 3 * 2"
  using mixed_offsets_in_bounds [of 3 2 4] mixed_offsets_in_bounds [of 3 2 5]
  by (simp add: even_offset_def odd_offset_def)

subsection \<open>Blend compositor\<close>

lemma scatter_ok:
  "\<forall>p \<in> set ps. fst p < length a \<Longrightarrow> \<exists>b. scatter a ps = Inr b \<and> length b = length a"
proof (induction ps arbitrary: a)
  case Nil
  then show ?case by simp
next
  case (Cons p ps)
  obtain i v where p: "p = (i, v)" by (cases p)
  from Cons.prems p have i: "i < length a" by simp
  from Cons.prems have "\<forall>q \<in> set ps. fst q < length (a[i := v])" by simp
  from Cons.IH [OF this] i p show ?case by simp
qed

lemma write_pixelwise_mixed_ok:
  assumes "width s * height s \<le> length interp"
  shows "\<exists>f. write_pixelwise_mixed s interp = Inr f"
proof -
  let ?w = "width s" and ?h = "height s"
  let ?flat = "take (?w * ?h) interp"
  have len: "length ?flat = ?w * ?h" using assms by simp
  let ?m0 = "map (\<lambda>_. 0::pixel) ?flat"
  let ?es = "map (\<lambda>i. (even_offset ?w ?h i, ?flat ! i)) (filter even [0..<length ?flat])"
  let ?os = "map (\<lambda>i. (odd_offset ?w ?h i, ?flat ! i)) (filter odd [0..<length ?flat])"
  have "\<forall>p \<in> set ?es. fst p < length ?m0"
    using len even_offset_bound by auto
  from scatter_ok [OF this] obtain m1 where
    m1: "scatter ?m0 ?es = Inr m1" "length m1 = length ?m0" by blast
  have "\<forall>p \<in> set ?os. fst p < length m1"
    using len m1(2) odd_offset_bound by auto
  from scatter_ok [OF this] obtain m2 where
    m2: "scatter m1 ?os = Inr m2" "length m2 = length m1" by blast
  have "length m2 = ?h * ?w" using m2(2) m1(2) len by (simp add: mult.commute)
  then have "\<exists>f. reshape2 ?h ?w m2 = Inr f" by (simp add: reshape2_def)
  then show ?thesis
    using m1(1) m2(1) by (auto simp: write_pixelwise_mixed_def Let_def)
qed

lemma raw_direct_ok:
  assumes "width s * height s \<le> length interp"
  shows "\<exists>f. raw_direct s interp = Inr f"
  using assms by (simp add: raw_direct_def reshape2_def mult.commute)

text \<open>
  C4. For every interpolated sequence that fills the screen, \<open>write_blended\<close> with a
  ratio \<open>\<le> 0\<close> returns the very frame of the raw strategy (the row-major reshape), and
  with a ratio \<open>\<ge> 1\<close> the very frame of \<open>write_pixelwise_mixed\<close>.
\<close>

theorem blend_boundary:
  assumes "width s * height s \<le> length interp"
  shows "(blend_ratio s \<le> 0 \<longrightarrow>
           (\<exists>f. raw_direct s interp = Inr f \<and> write_blended s interp = Inr f))
       \<and> (1 \<le> blend_ratio s \<longrightarrow>
           (\<exists>f. write_pixelwise_mixed s interp = Inr f \<and> write_blended s interp = Inr f))"
proof -
  from raw_direct_ok [OF assms] obtain r where r: "raw_direct s interp = Inr r" by blast
  from write_pixelwise_mixed_ok [OF assms] obtain m where
    m: "write_pixelwise_mixed s interp = Inr m" by blast
  from r have r': "reshape2 (height s) (width s) (take (width s * height s) interp) = Inr r"
    by (simp add: raw_direct_def)
  show ?thesis using r r' m by (simp add: write_blended_def)
qed

theorem blend_boundary_witness:
  "width (Bgwxfb_init (demo_cfg\<lparr>cfg_ratio := 0\<rparr>) [[0, 0], [0, 0]] (\<lambda>_. 0) [])
     * height (Bgwxfb_init (demo_cfg\<lparr>cfg_ratio := 0\<rparr>) [[0, 0], [0, 0]] (\<lambda>_. 0) [])
     \<le> length [1, 2, 3, 4 :: pixel]
   \<and> blend_ratio (Bgwxfb_init (demo_cfg\<lparr>cfg_ratio := 0\<rparr>) [[0, 0], [0, 0]] (\<lambda>_. 0) []) \<le> 0
   \<and> write_blended (Bgwxfb_init (demo_cfg\<lparr>cfg_ratio := 0\<rparr>) [[0, 0], [0, 0]] (\<lambda>_. 0) [])
       [1, 2, 3, 4] = Inr [[1, 2], [3, 4]]
   \<and> 1 \<le> blend_ratio (Bgwxfb_init (demo_cfg\<lparr>cfg_ratio := 2\<rparr>) [[0, 0], [0, 0]] (\<lambda>_. 0) [])
   \<and> write_blended (Bgwxfb_init (demo_cfg\<lparr>cfg_ratio := 2\<rparr>) [[0, 0], [0, 0]] (\<lambda>_. 0) [])
       [1, 2, 3, 4] = Inr [[1, 2], [0, 4]]"
  using
    blend_boundary [of "Bgwxfb_init (demo_cfg\<lparr>cfg_ratio := 0\<rparr>) [[0, 0], [0, 0]] (\<lambda>_. 0) []"
      "[1, 2, 3, 4]"]
    blend_boundary [of "Bgwxfb_init (demo_cfg\<lparr>cfg_ratio := 2\<rparr>) [[0, 0], [0, 0]] (\<lambda>_. 0) []"
      "[1, 2, 3, 4]"]
  by (simp add: demo_cfg_def Bgwxfb_init_def write_blended_def
      write_pixelwise_mixed_def raw_direct_def reshape2_def even_offset_def odd_offset_def
      upt_conv_Cons Let_def)

lemma write_blended_missing_weights:
  assumes "width s * height s \<le> length interp"
    and "0 < blend_ratio s" and "blend_ratio s < 1" and "blend_inv s = None"
  shows "write_blended s interp = Inl AttributeError"
proof -
  from raw_direct_ok [OF assms(1)] obtain r where
    "reshape2 (height s) (width s) (take (width s * height s) interp) = Inr r"
    by (auto simp: raw_direct_def)
  moreover from write_pixelwise_mixed_ok [OF assms(1)] obtain m where
    "write_pixelwise_mixed s interp = Inr m" by blast
  ultimately show ?thesis using assms(2-4) by (simp add: write_blended_def)
qed

lemma write_blended_with_weights:
  assumes "width s * height s \<le> length interp"
    and "0 < blend_ratio s" and "blend_ratio s < 1"
    and "blend_inv s = Some a" and "blend_coef s = Some b" and "\<not> use_black_and_white s"
  shows "\<exists>raw mixed. raw_direct s interp = Inr raw \<and> write_pixelwise_mixed s interp = Inr mixed
           \<and> write_blended s interp = Inr (map2 (map2 (blend_pixel a b)) raw mixed)"
proof -
  from raw_direct_ok [OF assms(1)] obtain r where r: "raw_direct s interp = Inr r" by blast
  from write_pixelwise_mixed_ok [OF assms(1)] obtain m where
    m: "write_pixelwise_mixed s interp = Inr m" by blast
  from r have "reshape2 (height s) (width s) (take (width s * height s) interp) = Inr r"
    by (simp add: raw_direct_def)
  then have "write_blended s interp = Inr (map2 (map2 (blend_pixel a b)) r m)"
    using m assms(2-6) by (simp add: write_blended_def)
  with r m show ?thesis by blast
qed

text \<open>
  C1. The claim is that, for a ratio strictly between 0 and 1, the blended frame is
  \<open>(raw*inverse + mixed*coef) >> 8\<close> per channel. On an instance as \<open>__init__\<close> builds it,
  the weights \<open>_blend_inv\<close> and \<open>_blend_coef\<close> do not exist: for every such ratio, and every
  interpolated sequence that fills the screen, \<open>write_blended\<close> raises \<open>AttributeError\<close>
  and returns no frame.
\<close>

theorem write_blended_raises_between:
  assumes "0 < cfg_ratio cfg" and "cfg_ratio cfg < 1"
    and "cfg_width cfg * cfg_height cfg \<le> length interp"
  shows "write_blended (Bgwxfb_init cfg surface rnd0 lut) interp = Inl AttributeError"
proof (rule write_blended_missing_weights)
  show "width (Bgwxfb_init cfg surface rnd0 lut) * height (Bgwxfb_init cfg surface rnd0 lut)
      \<le> length interp"
    using assms(3) by (simp add: Bgwxfb_init_def)
  show "0 < blend_ratio (Bgwxfb_init cfg surface rnd0 lut)"
    using assms(1) by (simp add: Bgwxfb_init_def)
  show "blend_ratio (Bgwxfb_init cfg surface rnd0 lut) < 1"
    using assms(2) by (simp add: Bgwxfb_init_def)
  show "blend_inv (Bgwxfb_init cfg surface rnd0 lut) = None"
    by (simp add: Bgwxfb_init_def)
qed

theorem write_blended_raises_between_witness:
  "0 < cfg_ratio demo_cfg \<and> cfg_ratio demo_cfg < 1
   \<and> cfg_width demo_cfg * cfg_height demo_cfg \<le> length [1, 2, 3, 4 :: pixel]
   \<and> write_blended demo_state [1, 2, 3, 4] = Inl AttributeError"
  using write_blended_raises_between [of demo_cfg "[1, 2, 3, 4]" "[[0, 0], [0, 0]]"
      "\<lambda>_. 0" "[]"]
  by (simp add: demo_state_def demo_cfg_def)

subsection \<open>Color Mapper\<close>

text \<open>
  C10. In black-and-white mode the packed color depends on the intensity only: two
  calls of \<open>float_to_rgb565\<close> with the same intensity and any two positions return the
  same value.
\<close>

theorem bw_color_ignores_position:
  assumes "use_black_and_white s"
  shows "float_to_rgb565 s h1 v = float_to_rgb565 s h2 v"
proof -
  let ?gray = "py_int (v * 31) AND 0x1F"
  have "float_to_rgb565 s h v =
      Inr (push_bit 11 ?gray OR push_bit 5 (push_bit 1 ?gray) OR ?gray)" for h
    unfolding float_to_rgb565_def Let_def using assms by (simp only: if_True)
  then show ?thesis by (simp only:)
qed

theorem bw_color_ignores_position_witness:
  "use_black_and_white (demo_state\<lparr>use_black_and_white := True\<rparr>)
   \<and> float_to_rgb565 (demo_state\<lparr>use_black_and_white := True\<rparr>) 0 (1 / 2) = Inr 31695
   \<and> float_to_rgb565 (demo_state\<lparr>use_black_and_white := True\<rparr>) (3 / 4) (1 / 2) = Inr 31695"
  using bw_color_ignores_position [of "demo_state\<lparr>use_black_and_white := True\<rparr>" 0 "1 / 2" "3 / 4"]
  by (simp add: float_to_rgb565_def py_int_def)

subsection \<open>Frame Committer\<close>

lemma bounding_rect_iff:
  "bounding_rect h w D r0 r1 c0 c1 \<longleftrightarrow>
     r0 \<le> r1 \<and> r1 < h \<and> c0 \<le> c1 \<and> c1 < w
     \<and> (\<forall>r < h. \<forall>c < w. D r c \<longrightarrow> r0 \<le> r \<and> r \<le> r1 \<and> c0 \<le> c \<and> c \<le> c1)
     \<and> (\<exists>c < w. D r0 c) \<and> (\<exists>c < w. D r1 c) \<and> (\<exists>r < h. D r c0) \<and> (\<exists>r < h. D r c1)"
  unfolding bounding_rect_def by (simp add: Ball_def Bex_def)

lemma frame_ok_nth: "frame_ok h w f \<Longrightarrow> r < h \<Longrightarrow> length (f ! r) = w"
  by (simp add: frame_ok_def)

lemma diff_mask_shape:
  assumes "frame_ok h w a" and "frame_ok h w b"
  shows "frame_ok h w (diff_mask a b)"
  using assms by (auto simp: frame_ok_def diff_mask_def set_zip)

lemma diff_mask_nth:
  assumes "frame_ok h w a" and "frame_ok h w b" and "r < h" and "c < w"
  shows "diff_mask a b ! r ! c = differs a b r c"
  using assms by (simp add: frame_ok_def diff_mask_def differs_def)

lemma first_last_where:
  assumes "i < length bs" and "bs ! i"
  shows "\<exists>a b. first_last (np_where bs) = Inr (a, b) \<and> a \<le> b \<and> b < length bs
           \<and> bs ! a \<and> bs ! b \<and> (\<forall>j < length bs. bs ! j \<longrightarrow> a \<le> j \<and> j \<le> b)"
proof -
  let ?xs = "np_where bs"
  have mem: "\<And>j. j \<in> set ?xs \<longleftrightarrow> j < length bs \<and> bs ! j"
    by (auto simp: np_where_def)
  have srt: "sorted ?xs" unfolding np_where_def by (rule sorted_wrt_filter) simp
  from assms mem have ne: "?xs \<noteq> []" by (metis empty_iff empty_set)
  then obtain y ys where xs: "?xs = y # ys" by (cases ?xs) auto
  have hd_in: "hd ?xs \<in> set ?xs" and last_in: "last ?xs \<in> set ?xs" using ne by simp_all
  have lo: "\<And>j. j \<in> set ?xs \<Longrightarrow> hd ?xs \<le> j"
    using srt xs by auto
  have hi: "\<And>j. j \<in> set ?xs \<Longrightarrow> j \<le> last ?xs"
  proof -
    fix j assume "j \<in> set ?xs"
    then obtain k where k: "k < length ?xs" "?xs ! k = j" by (auto simp: in_set_conv_nth)
    then have "?xs ! k \<le> ?xs ! (length ?xs - 1)"
      using srt by (intro sorted_nth_mono) auto
    then show "j \<le> last ?xs" using k ne by (simp add: last_conv_nth)
  qed
  have fl: "first_last ?xs = Inr (hd ?xs, last ?xs)"
    using xs by (simp add: first_last_def)
  show ?thesis
    using fl hd_in last_in lo hi mem by (metis)
qed

lemma nth_append3:
  assumes "length a = la" and "length b = lb"
  shows "(a @ b @ c) ! i =
           (if i < la then a ! i else if i < la + lb then b ! (i - la) else c ! (i - la - lb))"
  using assms by (auto simp: nth_append)

lemma assign_rect_row:
  assumes "length fb = h" and "length nf = h" and "r0 \<le> r1" and "r1 < h" and "r < h"
  shows "assign_rect fb nf r0 r1 c0 c1 ! r =
           (if r0 \<le> r \<and> r \<le> r1
            then take c0 (fb ! r) @ slice c0 (c1 + 1) (nf ! r) @ drop (c1 + 1) (fb ! r)
            else fb ! r)"
proof -
  let ?f = "\<lambda>row nrow. take c0 row @ slice c0 (c1 + 1) nrow @ drop (c1 + 1) row"
  let ?mid = "map2 ?f (slice r0 (r1 + 1) fb) (slice r0 (r1 + 1) nf)"
  have lmid: "length ?mid = r1 + 1 - r0" using assms by (simp add: slice_def)
  have ltk: "length (take r0 fb) = r0" using assms by simp
  consider (lo) "r < r0" | (mid) "r0 \<le> r" "r \<le> r1" | (hi) "r1 < r" by linarith
  then show ?thesis
  proof cases
    case lo
    then show ?thesis unfolding assign_rect_def nth_append3 [OF ltk lmid] using assms by simp
  next
    case mid
    then have "assign_rect fb nf r0 r1 c0 c1 ! r = ?mid ! (r - r0)"
      unfolding assign_rect_def nth_append3 [OF ltk lmid] by simp
    also have "\<dots> = ?f (fb ! r) (nf ! r)"
    proof -
      have "r - r0 < r1 + 1 - r0" using mid by linarith
      moreover have "r0 + (r - r0) = r" using mid by simp
      ultimately show ?thesis using assms by (simp add: slice_def)
    qed
    finally show ?thesis using mid by simp
  next
    case hi
    then have "assign_rect fb nf r0 r1 c0 c1 ! r = drop (r1 + 1) fb ! (r - r0 - (r1 + 1 - r0))"
      unfolding assign_rect_def nth_append3 [OF ltk lmid] using assms by simp
    also have "\<dots> = fb ! r"
    proof -
      have "r1 + 1 + (r - r0 - (r1 + 1 - r0)) = r" using hi assms by linarith
      then show ?thesis using assms by simp
    qed
    finally show ?thesis using hi by simp
  qed
qed

lemma assign_rect_length:
  assumes "length fb = h" and "length nf = h" and "r0 \<le> r1" and "r1 < h"
  shows "length (assign_rect fb nf r0 r1 c0 c1) = h"
  using assms by (simp add: assign_rect_def slice_def)

lemma patched_row:
  assumes "length row = w" and "length nrow = w" and "c0 \<le> c1" and "c1 < w"
  shows "length (take c0 row @ slice c0 (c1 + 1) nrow @ drop (c1 + 1) row) = w"
    and "c < w \<Longrightarrow> (take c0 row @ slice c0 (c1 + 1) nrow @ drop (c1 + 1) row) ! c =
           (if c0 \<le> c \<and> c \<le> c1 then nrow ! c else row ! c)"
proof -
  show "length (take c0 row @ slice c0 (c1 + 1) nrow @ drop (c1 + 1) row) = w"
    using assms by (simp add: slice_def)
  assume c: "c < w"
  have l1: "length (take c0 row) = c0" using assms by simp
  have l2: "length (slice c0 (c1 + 1) nrow) = c1 + 1 - c0" using assms by (simp add: slice_def)
  consider (lo) "c < c0" | (mid) "c0 \<le> c" "c \<le> c1" | (hi) "c1 < c" by linarith
  then show "(take c0 row @ slice c0 (c1 + 1) nrow @ drop (c1 + 1) row) ! c =
           (if c0 \<le> c \<and> c \<le> c1 then nrow ! c else row ! c)"
  proof cases
    case lo
    then show ?thesis unfolding nth_append3 [OF l1 l2] using assms by simp
  next
    case mid
    then have "(take c0 row @ slice c0 (c1 + 1) nrow @ drop (c1 + 1) row) ! c
        = slice c0 (c1 + 1) nrow ! (c - c0)"
      unfolding nth_append3 [OF l1 l2] by simp
    also have "\<dots> = nrow ! c"
    proof -
      have "c - c0 < c1 + 1 - c0" using mid by linarith
      moreover have "c0 + (c - c0) = c" using mid by simp
      ultimately show ?thesis using assms c by (simp add: slice_def)
    qed
    finally show ?thesis using mid by simp
  next
    case hi
    then have "(take c0 row @ slice c0 (c1 + 1) nrow @ drop (c1 + 1) row) ! c
        = drop (c1 + 1) row ! (c - c0 - (c1 + 1 - c0))"
      unfolding nth_append3 [OF l1 l2] using assms by simp
    also have "\<dots> = row ! c"
    proof -
      have "c1 + 1 + (c - c0 - (c1 + 1 - c0)) = c" using hi assms by linarith
      then show ?thesis using assms c by simp
    qed
    finally show ?thesis using hi by simp
  qed
qed

lemma assign_rect_shape:
  assumes "frame_ok h w fb" and "frame_ok h w nf"
    and "r0 \<le> r1" and "r1 < h" and "c0 \<le> c1" and "c1 < w"
  shows "frame_ok h w (assign_rect fb nf r0 r1 c0 c1)"
proof -
  have lf: "length fb = h" and ln: "length nf = h" using assms by (simp_all add: frame_ok_def)
  have len: "length (assign_rect fb nf r0 r1 c0 c1) = h"
    using lf ln assms(3,4) by (rule assign_rect_length)
  have "length (assign_rect fb nf r0 r1 c0 c1 ! r) = w" if "r < h" for r
  proof -
    have a: "length (fb ! r) = w" and b: "length (nf ! r) = w"
      using assms(1,2) that by (simp_all add: frame_ok_nth)
    show ?thesis
      using assign_rect_row [OF lf ln assms(3,4) that, of c0 c1]
        patched_row(1) [OF a b assms(5,6)] a by (simp split: if_splits)
  qed
  then show ?thesis using len by (auto simp: frame_ok_def in_set_conv_nth)
qed

lemma assign_rect_nth:
  assumes "frame_ok h w fb" and "frame_ok h w nf"
    and "r0 \<le> r1" and "r1 < h" and "c0 \<le> c1" and "c1 < w" and "r < h" and "c < w"
  shows "assign_rect fb nf r0 r1 c0 c1 ! r ! c =
           (if r0 \<le> r \<and> r \<le> r1 \<and> c0 \<le> c \<and> c \<le> c1 then nf ! r ! c else fb ! r ! c)"
proof -
  have lf: "length fb = h" and ln: "length nf = h" using assms by (simp_all add: frame_ok_def)
  have a: "length (fb ! r) = w" and b: "length (nf ! r) = w"
    using assms(1,2,7) by (simp_all add: frame_ok_nth)
  show ?thesis
    using assign_rect_row [OF lf ln assms(3,4,7), of c0 c1]
      patched_row(2) [OF a b assms(5,6,8)] by simp
qed

lemma any_diff_iff:
  assumes "frame_ok h w a" and "frame_ok h w b"
  shows "list_ex (list_ex (\<lambda>x. x)) (diff_mask a b) \<longleftrightarrow> (\<exists>r < h. \<exists>c < w. differs a b r c)"
proof -
  have ok: "frame_ok h w (diff_mask a b)" using assms by (rule diff_mask_shape)
  then have len: "length (diff_mask a b) = h" by (simp add: frame_ok_def)
  have "list_ex (\<lambda>x. x) (diff_mask a b ! r) \<longleftrightarrow> (\<exists>c < w. differs a b r c)" if "r < h" for r
    using frame_ok_nth [OF ok that] diff_mask_nth [OF assms that]
    by (auto simp: list_ex_length)
  then have "(\<exists>r < h. list_ex (\<lambda>x. x) (diff_mask a b ! r)) \<longleftrightarrow>
      (\<exists>r < h. \<exists>c < w. differs a b r c)" by blast
  moreover have "list_ex (list_ex (\<lambda>x. x)) (diff_mask a b) \<longleftrightarrow>
      (\<exists>r < h. list_ex (\<lambda>x. x) (diff_mask a b ! r))"
    unfolding list_ex_length [of "list_ex (\<lambda>x. x)"] len ..
  ultimately show ?thesis by blast
qed

lemma diff_rect:
  assumes "frame_ok h w a" and "frame_ok h w b" and "\<exists>r < h. \<exists>c < w. differs a b r c"
  shows "\<exists>r0 r1 c0 c1.
           first_last (np_where (map (list_ex (\<lambda>x. x)) (diff_mask a b))) = Inr (r0, r1)
         \<and> first_last (np_where (map (\<lambda>c. list_ex (\<lambda>row. row ! c) (diff_mask a b)) [0..<w]))
             = Inr (c0, c1)
         \<and> bounding_rect h w (differs a b) r0 r1 c0 c1"
proof -
  let ?d = "diff_mask a b"
  let ?rows = "map (list_ex (\<lambda>x. x)) ?d"
  let ?cols = "map (\<lambda>c. list_ex (\<lambda>row. row ! c) ?d) [0..<w]"
  have ok: "frame_ok h w ?d" using assms(1,2) by (rule diff_mask_shape)
  then have len: "length ?d = h" by (simp add: frame_ok_def)
  have lrows: "length ?rows = h" using len by simp
  have lcols: "length ?cols = w" by simp
  have rows: "?rows ! r \<longleftrightarrow> (\<exists>c < w. differs a b r c)" if "r < h" for r
    using frame_ok_nth [OF ok that] diff_mask_nth [OF assms(1,2) that] len that
    by (auto simp: list_ex_length)
  have cols: "?cols ! c \<longleftrightarrow> (\<exists>r < h. differs a b r c)" if "c < w" for c
    using diff_mask_nth [OF assms(1,2) _ that] len that
    by (auto simp: list_ex_length)
  from assms(3) obtain r c where rc: "r < h" "c < w" "differs a b r c" by blast
  have "r < length ?rows" "?rows ! r" using rc rows lrows by auto
  from first_last_where [OF this] obtain r0 r1 where
    R: "first_last (np_where ?rows) = Inr (r0, r1)" "r0 \<le> r1" "r1 < h"
       "?rows ! r0" "?rows ! r1" "\<forall>j < h. ?rows ! j \<longrightarrow> r0 \<le> j \<and> j \<le> r1"
    unfolding lrows by blast
  have "c < length ?cols" "?cols ! c" using rc cols [OF rc(2)] by auto
  from first_last_where [OF this] obtain c0 c1 where
    C: "first_last (np_where ?cols) = Inr (c0, c1)" "c0 \<le> c1" "c1 < w"
       "?cols ! c0" "?cols ! c1" "\<forall>j < w. ?cols ! j \<longrightarrow> c0 \<le> j \<and> j \<le> c1"
    unfolding lcols by blast
  have r0h: "r0 < h" and c0w: "c0 < w" using R(2,3) C(2,3) by simp_all
  have cover: "\<forall>r < h. \<forall>c < w. differs a b r c \<longrightarrow> r0 \<le> r \<and> r \<le> r1 \<and> c0 \<le> c \<and> c \<le> c1"
  proof (intro allI impI)
    fix r c assume h: "r < h" "c < w" "differs a b r c"
    then have "?rows ! r" "?cols ! c" using rows [OF h(1)] cols [OF h(2)] by blast+
    then show "r0 \<le> r \<and> r \<le> r1 \<and> c0 \<le> c \<and> c \<le> c1" using R(6) C(6) h by blast
  qed
  have tight: "(\<exists>c < w. differs a b r0 c)" "(\<exists>c < w. differs a b r1 c)"
      "(\<exists>r < h. differs a b r c0)" "(\<exists>r < h. differs a b r c1)"
    using R(4,5) C(4,5) rows [OF r0h] rows [OF R(3)] cols [OF c0w] cols [OF C(3)] by blast+
  have "bounding_rect h w (differs a b) r0 r1 c0 c1"
    unfolding bounding_rect_iff using R(2,3) C(2,3) cover tight by blast
  then show ?thesis using R(1) C(1) by blast
qed

lemma prev_frame_update_noop:
  assumes "frame_ok (height s) (width s) (prev_frame s)"
    and "frame_ok (height s) (width s) nf"
    and "\<not> (\<exists>r < height s. \<exists>c < width s. differs nf (prev_frame s) r c)"
  shows "prev_frame_update_fn s nf = Inr s"
  using assms(3) any_diff_iff [OF assms(2,1)] by (simp add: prev_frame_update_fn_def)

lemma prev_frame_update_write:
  assumes "frame_ok (height s) (width s) (prev_frame s)"
    and "frame_ok (height s) (width s) nf"
    and "\<exists>r < height s. \<exists>c < width s. differs nf (prev_frame s) r c"
  shows "\<exists>r0 r1 c0 c1.
           prev_frame_update_fn s nf =
             Inr (s\<lparr> fb_array := assign_rect (fb_array s) nf r0 r1 c0 c1, prev_frame := nf \<rparr>)
         \<and> bounding_rect (height s) (width s) (differs nf (prev_frame s)) r0 r1 c0 c1"
proof -
  from diff_rect [OF assms(2,1,3)] obtain r0 r1 c0 c1 where
    a: "first_last (np_where (map (list_ex (\<lambda>x. x)) (diff_mask nf (prev_frame s)))) = Inr (r0, r1)"
    and b: "first_last (np_where (map (\<lambda>c. list_ex (\<lambda>row. row ! c) (diff_mask nf (prev_frame s)))
              [0..<width s])) = Inr (c0, c1)"
    and c: "bounding_rect (height s) (width s) (differs nf (prev_frame s)) r0 r1 c0 c1"
    by blast
  have "list_ex (list_ex (\<lambda>x. x)) (diff_mask nf (prev_frame s))"
    using assms(3) any_diff_iff [OF assms(2,1)] by simp
  then have "prev_frame_update_fn s nf =
      Inr (s\<lparr> fb_array := assign_rect (fb_array s) nf r0 r1 c0 c1, prev_frame := nf \<rparr>)"
    using a b by (simp add: prev_frame_update_fn_def)
  with c show ?thesis by blast
qed

lemma frame_ok_eqI:
  assumes "frame_ok h w a" and "frame_ok h w b"
    and "\<not> (\<exists>r < h. \<exists>c < w. differs a b r c)"
  shows "a = b"
proof (rule nth_equalityI)
  show "length a = length b" using assms by (simp add: frame_ok_def)
next
  fix r assume "r < length a"
  then have r: "r < h" using assms(1) by (simp add: frame_ok_def)
  show "a ! r = b ! r"
  proof (rule nth_equalityI)
    show "length (a ! r) = length (b ! r)" using assms(1,2) r by (simp add: frame_ok_nth)
  next
    fix c assume "c < length (a ! r)"
    then have "c < w" using assms(1) r by (simp add: frame_ok_nth)
    then show "a ! r ! c = b ! r ! c" using assms(3) r by (auto simp: differs_def)
  qed
qed

lemma commit_state_simps:
  "height commit_state = 3" "width commit_state = 3"
  "fb_array commit_state = [[9, 9, 9], [9, 9, 9], [9, 9, 9]]"
  "prev_frame commit_state = [[1, 1, 1], [1, 1, 1], [1, 1, 1]]"
  by (simp_all add: commit_state_def Bgwxfb_init_def demo_cfg_def)

lemma commit_frames_ok:
  "frame_ok 3 3 (fb_array commit_state)" "frame_ok 3 3 (prev_frame commit_state)"
  "frame_ok 3 3 commit_frame"
  by (simp_all add: commit_state_simps commit_frame_def frame_ok_def)

lemma commit_differs: "\<exists>r < 3. \<exists>c < 3. differs commit_frame (prev_frame commit_state) r c"
proof -
  have "differs commit_frame (prev_frame commit_state) 0 1"
    by (simp add: differs_def commit_frame_def commit_state_simps)
  then show ?thesis by (intro exI [of _ 0] exI [of _ 1] conjI) simp_all
qed

lemma commit_eval:
  "prev_frame_update_fn commit_state commit_frame =
     Inr (commit_state\<lparr> fb_array := [[9, 2, 1], [9, 1, 1], [9, 1, 3]],
                        prev_frame := commit_frame \<rparr>)"
  by (simp add: prev_frame_update_fn_def diff_mask_def np_where_def first_last_def
      assign_rect_def slice_def commit_state_simps commit_frame_def upt_conv_Cons Let_def)

text \<open>
  C3. In partial-update mode, for every new frame that differs from the previous frame
  in at least one pixel, \<open>prev_frame_update\<close> returns, and there is a rectangle
  \<open>[r0,r1] x [c0,c1]\<close> that is the minimal bounding rectangle of the differing pixels,
  such that every surface pixel inside it holds the new frame's pixel afterwards, every
  surface pixel outside it is unchanged, the previous frame equals the entire new
  frame, and nothing else of the state changes.
\<close>

theorem partial_update_bounding_rect:
  assumes "frame_ok (height s) (width s) (fb_array s)"
    and "frame_ok (height s) (width s) (prev_frame s)"
    and "frame_ok (height s) (width s) nf"
    and "\<exists>r < height s. \<exists>c < width s. differs nf (prev_frame s) r c"
  shows "\<exists>s' r0 r1 c0 c1.
           prev_frame_update_fn s nf = Inr s'
         \<and> bounding_rect (height s) (width s) (differs nf (prev_frame s)) r0 r1 c0 c1
         \<and> (\<forall>r < height s. \<forall>c < width s.
               fb_array s' ! r ! c =
                 (if r0 \<le> r \<and> r \<le> r1 \<and> c0 \<le> c \<and> c \<le> c1 then nf ! r ! c
                  else fb_array s ! r ! c))
         \<and> frame_ok (height s) (width s) (fb_array s')
         \<and> prev_frame s' = nf
         \<and> s' = s\<lparr> fb_array := fb_array s', prev_frame := nf \<rparr>"
proof -
  from prev_frame_update_write [OF assms(2,3,4)] obtain r0 r1 c0 c1 where
    u: "prev_frame_update_fn s nf =
          Inr (s\<lparr> fb_array := assign_rect (fb_array s) nf r0 r1 c0 c1, prev_frame := nf \<rparr>)"
    and b: "bounding_rect (height s) (width s) (differs nf (prev_frame s)) r0 r1 c0 c1"
    by blast
  from b have g: "r0 \<le> r1" "r1 < height s" "c0 \<le> c1" "c1 < width s"
    by (simp_all add: bounding_rect_iff)
  let ?s' = "s\<lparr> fb_array := assign_rect (fb_array s) nf r0 r1 c0 c1, prev_frame := nf \<rparr>"
  have px: "\<forall>r < height s. \<forall>c < width s.
               fb_array ?s' ! r ! c =
                 (if r0 \<le> r \<and> r \<le> r1 \<and> c0 \<le> c \<and> c \<le> c1 then nf ! r ! c
                  else fb_array s ! r ! c)"
    using assign_rect_nth [OF assms(1,3) g] by simp
  have sh: "frame_ok (height s) (width s) (fb_array ?s')"
    using assign_rect_shape [OF assms(1,3) g] by simp
  have "prev_frame ?s' = nf" and "?s' = s\<lparr> fb_array := fb_array ?s', prev_frame := nf \<rparr>"
    by simp_all
  with u b px sh show ?thesis by blast
qed

theorem partial_update_bounding_rect_witness:
  "frame_ok (height commit_state) (width commit_state) (fb_array commit_state)
   \<and> frame_ok (height commit_state) (width commit_state) (prev_frame commit_state)
   \<and> frame_ok (height commit_state) (width commit_state) commit_frame
   \<and> (\<exists>r < height commit_state. \<exists>c < width commit_state.
         differs commit_frame (prev_frame commit_state) r c)
   \<and> (\<exists>s'. prev_frame_update_fn commit_state commit_frame = Inr s'
         \<and> fb_array s' = [[9, 2, 1], [9, 1, 1], [9, 1, 3]]
         \<and> prev_frame s' = commit_frame
         \<and> bounding_rect 3 3 (differs commit_frame (prev_frame commit_state)) 0 2 1 2)"
proof -
  have ok: "frame_ok (height commit_state) (width commit_state) (fb_array commit_state)"
    "frame_ok (height commit_state) (width commit_state) (prev_frame commit_state)"
    "frame_ok (height commit_state) (width commit_state) commit_frame"
    using commit_frames_ok by (simp_all add: commit_state_simps(1,2))
  have d: "\<exists>r < height commit_state. \<exists>c < width commit_state.
      differs commit_frame (prev_frame commit_state) r c"
    using commit_differs by (simp add: commit_state_simps)
  from partial_update_bounding_rect [OF ok(1) ok(2) ok(3) d]
  obtain s' r0 r1 c0 c1 where
    u: "prev_frame_update_fn commit_state commit_frame = Inr s'"
    and b: "bounding_rect (height commit_state) (width commit_state)
              (differs commit_frame (prev_frame commit_state)) r0 r1 c0 c1"
    and p: "prev_frame s' = commit_frame"
    by blast
  from u have "s' = commit_state\<lparr> fb_array := [[9, 2, 1], [9, 1, 1], [9, 1, 3]],
                        prev_frame := commit_frame \<rparr>"
    by (simp add: commit_eval)
  then have fb: "fb_array s' = [[9, 2, 1], [9, 1, 1], [9, 1, 3]]" by simp
  have D: "differs commit_frame (prev_frame commit_state) 0 1"
      "differs commit_frame (prev_frame commit_state) 2 2"
    by (simp_all add: differs_def commit_frame_def commit_state_simps)
  have cov: "\<forall>r < 3. \<forall>c < 3. differs commit_frame (prev_frame commit_state) r c \<longrightarrow>
      0 \<le> r \<and> r \<le> 2 \<and> 1 \<le> c \<and> c \<le> 2"
  proof (intro allI impI)
    fix r c :: nat assume h: "r < 3" "c < 3" "differs commit_frame (prev_frame commit_state) r c"
    then have "c \<noteq> 0"
      by (auto simp: differs_def commit_frame_def commit_state_simps less_Suc_eq numeral_3_eq_3)
    then show "0 \<le> r \<and> r \<le> 2 \<and> 1 \<le> c \<and> c \<le> 2" using h by simp
  qed
  have e1: "\<exists>c < 3. differs commit_frame (prev_frame commit_state) 0 c"
    using D(1) by (intro exI [of _ 1]) simp
  have e2: "\<exists>c < 3. differs commit_frame (prev_frame commit_state) 2 c"
    using D(2) by (intro exI [of _ 2]) simp
  have e3: "\<exists>r < 3. differs commit_frame (prev_frame commit_state) r 1"
    using D(1) by (intro exI [of _ 0]) simp
  have e4: "\<exists>r < 3. differs commit_frame (prev_frame commit_state) r 2"
    using D(2) by (intro exI [of _ 2]) simp
  have b0: "bounding_rect 3 3 (differs commit_frame (prev_frame commit_state)) 0 2 1 2"
    unfolding bounding_rect_iff using cov e1 e2 e3 e4 by simp
  show ?thesis using ok d u fb p b0 by blast
qed

text \<open>
  C6. In partial-update mode, committing one frame twice in succession: the first
  commit returns a state whose previous frame is that frame and, when the frame differs
  from the old previous frame, whose surface holds the frame at every differing pixel;
  the second commit changes nothing. When no pixel of the new frame differs from the
  previous frame, the commit leaves the surface and the previous frame as they are.
\<close>

theorem partial_update_idempotent:
  assumes "frame_ok (height s) (width s) (fb_array s)"
    and "frame_ok (height s) (width s) (prev_frame s)"
    and "frame_ok (height s) (width s) nf"
  shows "\<exists>s1. prev_frame_update_fn s nf = Inr s1
           \<and> prev_frame_update_fn s1 nf = Inr s1
           \<and> prev_frame s1 = nf
           \<and> ((\<exists>r < height s. \<exists>c < width s. differs nf (prev_frame s) r c) \<longrightarrow>
                (\<forall>r < height s. \<forall>c < width s. differs nf (prev_frame s) r c \<longrightarrow>
                   fb_array s1 ! r ! c = nf ! r ! c))
           \<and> ((\<forall>r < height s. \<forall>c < width s. \<not> differs nf (prev_frame s) r c) \<longrightarrow> s1 = s)"
proof (cases "\<exists>r < height s. \<exists>c < width s. differs nf (prev_frame s) r c")
  case False
  then have u: "prev_frame_update_fn s nf = Inr s"
    using prev_frame_update_noop [OF assms(2,3)] by blast
  have "nf = prev_frame s" using frame_ok_eqI [OF assms(3,2) False] .
  with u False show ?thesis by auto
next
  case True
  from prev_frame_update_write [OF assms(2,3) True] obtain r0 r1 c0 c1 where
    u: "prev_frame_update_fn s nf =
          Inr (s\<lparr> fb_array := assign_rect (fb_array s) nf r0 r1 c0 c1, prev_frame := nf \<rparr>)"
    and b: "bounding_rect (height s) (width s) (differs nf (prev_frame s)) r0 r1 c0 c1"
    by blast
  let ?s1 = "s\<lparr> fb_array := assign_rect (fb_array s) nf r0 r1 c0 c1, prev_frame := nf \<rparr>"
  from b have g: "r0 \<le> r1" "r1 < height s" "c0 \<le> c1" "c1 < width s"
    by (simp_all add: bounding_rect_iff)
  have cover: "\<forall>r < height s. \<forall>c < width s. differs nf (prev_frame s) r c \<longrightarrow>
      r0 \<le> r \<and> r \<le> r1 \<and> c0 \<le> c \<and> c \<le> c1"
    using b by (simp add: bounding_rect_iff)
  have same: "\<not> (\<exists>r < height ?s1. \<exists>c < width ?s1. differs nf (prev_frame ?s1) r c)"
    by (simp add: differs_def)
  have "frame_ok (height ?s1) (width ?s1) (prev_frame ?s1)"
    and "frame_ok (height ?s1) (width ?s1) nf"
    using assms(3) by simp_all
  from prev_frame_update_noop [OF this same] have second: "prev_frame_update_fn ?s1 nf = Inr ?s1" .
  have wr: "\<forall>r < height s. \<forall>c < width s. differs nf (prev_frame s) r c \<longrightarrow>
      fb_array ?s1 ! r ! c = nf ! r ! c"
    using assign_rect_nth [OF assms(1,3) g] cover by simp
  show ?thesis using u second wr True by auto
qed

theorem partial_update_idempotent_witness:
  "frame_ok (height commit_state) (width commit_state) (fb_array commit_state)
   \<and> frame_ok (height commit_state) (width commit_state) (prev_frame commit_state)
   \<and> frame_ok (height commit_state) (width commit_state) commit_frame
   \<and> (\<exists>s1. prev_frame_update_fn commit_state commit_frame = Inr s1
         \<and> prev_frame_update_fn s1 commit_frame = Inr s1
         \<and> fb_array s1 = [[9, 2, 1], [9, 1, 1], [9, 1, 3]]
         \<and> fb_array s1 \<noteq> fb_array commit_state
         \<and> prev_frame s1 = commit_frame)"
proof -
  have ok: "frame_ok (height commit_state) (width commit_state) (fb_array commit_state)"
    "frame_ok (height commit_state) (width commit_state) (prev_frame commit_state)"
    "frame_ok (height commit_state) (width commit_state) commit_frame"
    using commit_frames_ok by (simp_all add: commit_state_simps(1,2))
  from partial_update_idempotent [OF ok] obtain s1 where
    u: "prev_frame_update_fn commit_state commit_frame = Inr s1"
    and v: "prev_frame_update_fn s1 commit_frame = Inr s1"
    and p: "prev_frame s1 = commit_frame"
    by blast
  from u have "s1 = commit_state\<lparr> fb_array := [[9, 2, 1], [9, 1, 1], [9, 1, 3]],
                        prev_frame := commit_frame \<rparr>"
    by (simp add: commit_eval)
  then have fb: "fb_array s1 = [[9, 2, 1], [9, 1, 1], [9, 1, 3]]" by simp
  then have ne: "fb_array s1 \<noteq> fb_array commit_state" by (simp add: commit_state_simps)
  show ?thesis using ok u v fb ne p by blast
qed

subsection \<open>Signal Extractor\<close>

lemma norm_divisor_nonzero: "norm_divisor amp \<noteq> 0"
  by (simp add: norm_divisor_def Let_def)

lemma normalised_in_unit:
  assumes "\<forall>a \<in> set amp. 0 \<le> a" and "a \<in> set amp"
  shows "0 \<le> a / norm_divisor amp" and "a / norm_divisor amp \<le> 1"
proof -
  have fin: "finite (set amp)" and ne: "set amp \<noteq> {}" using assms(2) by auto
  have le: "a \<le> Max (set amp)" using assms(2) fin by simp
  have a0: "0 \<le> a" using assms by blast
  have M0: "0 \<le> Max (set amp)" using a0 le by linarith
  show "0 \<le> a / norm_divisor amp"
    using a0 M0 by (simp add: norm_divisor_def Let_def)
  show "a / norm_divisor amp \<le> 1"
  proof (cases "Max (set amp) = 0")
    case True
    with le a0 have "a = 0" by linarith
    then show ?thesis by simp
  next
    case False
    with M0 have "0 < Max (set amp)" by linarith
    then show ?thesis using le False by (simp add: norm_divisor_def Let_def)
  qed
qed

lemma rfft_ok:
  assumes "buf \<noteq> []"
  shows "\<exists>fft. rfft buf = Inr fft \<and> length fft = length buf div 2 + 1"
  using assms by (simp add: rfft_def)

lemma rfft_silent:
  assumes "buf \<noteq> []" and "\<forall>x \<in> set buf. x = 0" and "rfft buf = Inr fft"
  shows "\<forall>z \<in> set fft. z = 0"
proof -
  have "buf ! m = 0" if "m < length buf" for m using assms(2) that by simp
  then have "(\<Sum>m < length buf. of_real (buf ! m)
      * cis (- 2 * pi * real m * real k / real (length buf))) = 0" for k
    by (intro sum.neutral) simp
  then show ?thesis using assms(1,3) by (auto simp: rfft_def)
qed

text \<open>
  C8. In frequency mode, for every non-empty block of \<open>N\<close> samples the Signal Extractor
  returns \<open>N div 2 + 1\<close> values: the magnitudes of the spectrum, each divided by the
  maximum magnitude, or by 1 when that maximum is zero. The divisor is never zero, every
  value lies in \<open>[0, 1]\<close>, and an all-zero block gives all zeros.
\<close>

theorem frequency_mode_normalised:
  assumes "use_frequency_mode s" and "buf \<noteq> []"
  shows "\<exists>fft out. rfft buf = Inr fft \<and> signal_extract s buf = Inr out
           \<and> length out = length buf div 2 + 1
           \<and> out = map (\<lambda>a. a / norm_divisor (map cmod fft)) (map cmod fft)
           \<and> norm_divisor (map cmod fft) \<noteq> 0
           \<and> (Max (set (map cmod fft)) = 0 \<longrightarrow> norm_divisor (map cmod fft) = 1)
           \<and> (Max (set (map cmod fft)) \<noteq> 0 \<longrightarrow>
                norm_divisor (map cmod fft) = Max (set (map cmod fft)))
           \<and> (\<forall>x \<in> set out. 0 \<le> x \<and> x \<le> 1)
           \<and> ((\<forall>x \<in> set buf. x = 0) \<longrightarrow> (\<forall>y \<in> set out. y = 0))"
proof -
  from rfft_ok [OF assms(2)] obtain fft where
    f: "rfft buf = Inr fft" and lf: "length fft = length buf div 2 + 1" by blast
  let ?amp = "map cmod fft"
  let ?out = "map (\<lambda>a. a / norm_divisor ?amp) ?amp"
  have ex: "signal_extract s buf = Inr ?out"
    using assms(1) f by (simp add: signal_extract_def Let_def)
  have nonneg: "\<forall>a \<in> set ?amp. 0 \<le> a" by auto
  have unit: "\<forall>x \<in> set ?out. 0 \<le> x \<and> x \<le> 1"
  proof
    fix x assume "x \<in> set ?out"
    then obtain a where a: "a \<in> set ?amp" "x = a / norm_divisor ?amp" by auto
    with normalised_in_unit [OF nonneg a(1)] show "0 \<le> x \<and> x \<le> 1" by simp
  qed
  have silent: "(\<forall>x \<in> set buf. x = 0) \<longrightarrow> (\<forall>y \<in> set ?out. y = 0)"
  proof
    assume "\<forall>x \<in> set buf. x = 0"
    from rfft_silent [OF assms(2) this f] show "\<forall>y \<in> set ?out. y = 0" by auto
  qed
  have d: "Max (set ?amp) = 0 \<longrightarrow> norm_divisor ?amp = 1"
    "Max (set ?amp) \<noteq> 0 \<longrightarrow> norm_divisor ?amp = Max (set ?amp)"
    by (simp_all add: norm_divisor_def Let_def)
  show ?thesis
    using f ex lf unit silent d norm_divisor_nonzero [of ?amp] by (intro exI [of _ fft] exI [of _ ?out]) simp
qed

theorem frequency_mode_normalised_witness:
  "use_frequency_mode (Bgwxfb_init (demo_cfg\<lparr>cfg_freq := True\<rparr>) [] (\<lambda>_. 0) []) \<and> [0, 0 :: real] \<noteq> []
   \<and> signal_extract (Bgwxfb_init (demo_cfg\<lparr>cfg_freq := True\<rparr>) [] (\<lambda>_. 0) []) [0, 0] = Inr [0, 0]
   \<and> signal_extract (Bgwxfb_init (demo_cfg\<lparr>cfg_freq := True\<rparr>) [] (\<lambda>_. 0) []) [1 / 2] = Inr [1]"
  using frequency_mode_normalised [of "Bgwxfb_init (demo_cfg\<lparr>cfg_freq := True\<rparr>) [] (\<lambda>_. 0) []" "[0, 0]"]
  by (simp add: Bgwxfb_init_def demo_cfg_def signal_extract_def rfft_def norm_divisor_def Let_def lessThan_Suc
      numeral_2_eq_2)

subsection \<open>Spatial Interpolator\<close>

lemma interp_x_init:
  "interp_x (Bgwxfb_init cfg surface rnd0 lut) =
     linspace_open (real (cfg_blocksize cfg div 2 + 1)) (cfg_width cfg * cfg_height cfg)"
  by (simp add: Bgwxfb_init_def)

lemma linspace_open_length: "length (linspace_open stop num) = num"
  by (simp add: linspace_open_def)

lemma linspace_open_nth:
  "i < num \<Longrightarrow> linspace_open stop num ! i = real i * (stop / real num)"
  by (simp add: linspace_open_def)

lemma linspace_open_range:
  assumes "i < num" and "0 \<le> stop"
  shows "0 \<le> linspace_open stop num ! i" and "0 < stop \<Longrightarrow> linspace_open stop num ! i < stop"
proof -
  have n: "0 < real num" using assms(1) by simp
  show "0 \<le> linspace_open stop num ! i"
    using assms n by (simp add: linspace_open_nth)
  assume s: "0 < stop"
  have "real i * (stop / real num) = stop * (real i / real num)" by simp
  also have "\<dots> < stop * 1"
    using s assms(1) n by (intro mult_strict_left_mono) simp_all
  finally show "linspace_open stop num ! i < stop" using assms(1) by (simp add: linspace_open_nth)
qed

lemma pixel_roundtrip: "word_of_int (py_int (unsigned (p :: pixel))) = p"
proof -
  have e: "(unsigned p :: real) = of_int (uint p)" by (simp only: of_int_uint)
  have nn: "(0::real) \<le> of_int (uint p)" using uint_ge_0 [of p] by (simp only: of_int_0_le_iff)
  have "py_int (of_int (uint p)) = uint p"
    unfolding py_int_def using nn by (simp only: if_True floor_of_int)
  then show ?thesis unfolding e by (simp only: word_of_int_uint)
qed

lemma np_interp_arange_single: "np_interp_arange [v] x = v"
  by (simp add: np_interp_arange_def)

lemma np_interp_arange_at_index:
  assumes "i < length fp"
  shows "np_interp_arange fp (real i) = fp ! i"
proof -
  consider (z) "i = 0" | (last) "0 < i" "length fp - 1 \<le> i" | (mid) "0 < i" "i < length fp - 1"
    by linarith
  then show ?thesis
  proof cases
    case z
    then show ?thesis by (simp add: np_interp_arange_def)
  next
    case last
    with assms have "i = length fp - 1" by linarith
    with last show ?thesis by (simp add: np_interp_arange_def)
  next
    case mid
    then show ?thesis by (simp add: np_interp_arange_def)
  qed
qed


lemma take_nth_eq:
  assumes "take k xs = take k ys" and "i < k"
  shows "xs ! i = ys ! i"
proof -
  have "xs ! i = take k xs ! i" using assms(2) by simp
  also have "\<dots> = take k ys ! i" using assms(1) by simp
  also have "\<dots> = ys ! i" using assms(2) by simp
  finally show ?thesis .
qed

lemma np_interp_arange_prefix:
  assumes "length fp1 = length fp2" and "take (L + 1) fp1 = take (L + 1) fp2" and "x < real L"
  shows "np_interp_arange fp1 x = np_interp_arange fp2 x"
proof -
  have nth: "fp1 ! i = fp2 ! i" if "i \<le> L" for i
    using take_nth_eq [OF assms(2), of i] that by simp
  consider (lo) "x \<le> 0" | (hi) "0 < x" "real (length fp2 - 1) \<le> x"
    | (mid) "0 < x" "x < real (length fp2 - 1)" by linarith
  then show ?thesis
  proof cases
    case lo
    then show ?thesis using nth [of 0] by (simp add: np_interp_arange_def)
  next
    case hi
    then have "real (length fp2 - 1) < real L" using assms(3) by linarith
    then have "length fp2 - 1 \<le> L" by simp
    from nth [OF this] hi show ?thesis using assms(1) by (simp add: np_interp_arange_def)
  next
    case mid
    have "\<lfloor>x\<rfloor> < int L" using assms(3) by (simp add: floor_less_iff)
    moreover have "0 \<le> \<lfloor>x\<rfloor>" using mid(1) by simp
    ultimately have j: "nat \<lfloor>x\<rfloor> < L" by linarith
    then have "nat \<lfloor>x\<rfloor> \<le> L" and "nat \<lfloor>x\<rfloor> + 1 \<le> L" by simp_all
    from nth [OF this(1)] nth [OF this(2)]
    have e: "fp1 ! nat \<lfloor>x\<rfloor> = fp2 ! nat \<lfloor>x\<rfloor>"
      "fp1 ! (nat \<lfloor>x\<rfloor> + 1) = fp2 ! (nat \<lfloor>x\<rfloor> + 1)" .
    have a: "\<not> x \<le> 0" and b: "\<not> real (length fp2 - 1) \<le> x" using mid by linarith+
    show ?thesis
      unfolding np_interp_arange_def Let_def assms(1) by (simp only: a b if_False e)
  qed
qed

lemma spatial_interp_prefix:
  assumes "\<forall>x \<in> set (interp_x s). x < real L"
    and "length rgb1 = length rgb2" and "take (L + 1) rgb1 = take (L + 1) rgb2"
  shows "spatial_interp s rgb1 = spatial_interp s rgb2"
proof -
  let ?f1 = "map (\<lambda>p. real (unat p)) rgb1" and ?f2 = "map (\<lambda>p. real (unat p)) rgb2"
  have l: "length ?f1 = length ?f2" using assms(2) by simp
  have t: "take (L + 1) ?f1 = take (L + 1) ?f2"
    using assms(3) by (simp only: take_map)
  have "np_interp_arange ?f1 x = np_interp_arange ?f2 x" if "x \<in> set (interp_x s)" for x
    using np_interp_arange_prefix [OF l t] assms(1) that by blast
  then have "map (\<lambda>x. word_of_int (py_int (np_interp_arange ?f1 x)) :: pixel) (interp_x s)
      = map (\<lambda>x. word_of_int (py_int (np_interp_arange ?f2 x))) (interp_x s)"
    by simp
  moreover have "rgb1 = [] \<longleftrightarrow> rgb2 = []" using assms(2) by auto
  ultimately show ?thesis unfolding spatial_interp_def by simp
qed

lemma interp_x_below:
  "\<forall>x \<in> set (linspace_open (real (B div 2 + 1)) n). 0 \<le> x \<and> x < real (B div 2 + 1)"
proof
  fix x assume "x \<in> set (linspace_open (real (B div 2 + 1)) n)"
  then obtain i where i: "i < n" and x: "x = linspace_open (real (B div 2 + 1)) n ! i"
    by (auto simp: in_set_conv_nth linspace_open_length)
  have pos: "0 < real (B div 2 + 1)" by simp
  from linspace_open_range(1) [OF i less_imp_le [OF pos]]
    linspace_open_range(2) [OF i less_imp_le [OF pos] pos] x
  show "0 \<le> x \<and> x < real (B div 2 + 1)" by simp
qed

lemma float_to_rgb565_error:
  "float_to_rgb565 s h v1 = Inl e \<longleftrightarrow> float_to_rgb565 s h v2 = Inl e"
  by (simp add: float_to_rgb565_def Let_def)

lemma collect_Cons_Inr_Inl: "collect (Inr a # xs) = Inl e \<longleftrightarrow> collect xs = Inl e"
  by (cases "collect xs") simp_all

lemma collect_Inl_iff:
  assumes "list_all2 (\<lambda>a b. \<forall>e. a = Inl e \<longleftrightarrow> b = Inl e) xs ys"
  shows "collect xs = Inl e \<longleftrightarrow> collect ys = Inl e"
  using assms
proof (induction xs ys rule: list_all2_induct)
  case Nil
  show ?case by simp
next
  case (Cons x xs y ys)
  show ?case
  proof (cases x)
    case (Inl e')
    with Cons.hyps(1) have "y = Inl e'" by blast
    with Inl show ?thesis by simp
  next
    case (Inr a)
    have "\<And>e'. y \<noteq> Inl e'" using Cons.hyps(1) Inr by blast
    then obtain b where b: "y = Inr b" by (cases y) blast+
    show ?thesis unfolding Inr b collect_Cons_Inr_Inl by (rule Cons.IH)
  qed
qed

lemma collect_Inr_nth:
  "collect xs = Inr as \<Longrightarrow> length as = length xs \<and> (\<forall>i < length xs. xs ! i = Inr (as ! i))"
proof (induction xs arbitrary: as)
  case Nil
  then show ?case by simp
next
  case (Cons x xs)
  from Cons.prems obtain a where x: "x = Inr a" by (cases x) simp_all
  from Cons.prems x obtain as' where c: "collect xs = Inr as'" and as: "as = a # as'"
    by (cases "collect xs") simp_all
  from Cons.IH [OF c] have l: "length as' = length xs"
    and n: "\<forall>i < length xs. xs ! i = Inr (as' ! i)" by simp_all
  have "(x # xs) ! i = Inr (as ! i)" if "i < length (x # xs)" for i
  proof (cases i)
    case 0
    then show ?thesis using x as by simp
  next
    case (Suc j)
    with that have "j < length xs" by simp
    with n Suc as show ?thesis by simp
  qed
  then show ?case using l as by simp
qed

lemma collect_prefix:
  assumes "collect xs = Inr as" and "collect ys = Inr bs"
    and "length xs = length ys" and "take k xs = take k ys"
  shows "length as = length xs \<and> length bs = length ys \<and> take k as = take k bs"
proof -
  from collect_Inr_nth [OF assms(1)] have la: "length as = length xs"
    and na: "\<forall>i < length xs. xs ! i = Inr (as ! i)" by simp_all
  from collect_Inr_nth [OF assms(2)] have lb: "length bs = length ys"
    and nb: "\<forall>i < length ys. ys ! i = Inr (bs ! i)" by simp_all
  have "take k as = take k bs"
  proof (rule nth_equalityI)
    show "length (take k as) = length (take k bs)" using la lb assms(3) by simp
  next
    fix i assume "i < length (take k as)"
    then have i: "i < k" "i < length xs" using la by simp_all
    from take_nth_eq [OF assms(4) i(1)] have "xs ! i = ys ! i" .
    moreover have "xs ! i = Inr (as ! i)" using na i(2) by blast
    moreover have "ys ! i = Inr (bs ! i)" using nb i(2) assms(3) by simp
    ultimately have "as ! i = bs ! i" by simp
    then show "take k as ! i = take k bs ! i" using i(1) by simp
  qed
  with la lb show ?thesis by blast
qed

lemma color_map_prefix:
  assumes "length amp1 = length amp2" and "take k amp1 = take k amp2"
  shows "(color_map s amp1 = Inl e \<longleftrightarrow> color_map s amp2 = Inl e)
       \<and> (color_map s amp1 = Inr r1 \<and> color_map s amp2 = Inr r2 \<longrightarrow>
             length r1 = length amp1 \<and> length r2 = length amp2 \<and> take k r1 = take k r2)"
proof -
  let ?N = "length amp2"
  let ?xs = "map (\<lambda>i. float_to_rgb565 s (real i / real ?N) (amp1 ! i)) [0..<?N]"
  let ?ys = "map (\<lambda>i. float_to_rgb565 s (real i / real ?N) (amp2 ! i)) [0..<?N]"
  have rel: "list_all2 (\<lambda>a b. \<forall>e. a = Inl e \<longleftrightarrow> b = Inl e) ?xs ?ys"
    unfolding list_all2_conv_all_nth
  proof (intro conjI allI impI)
    show "length ?xs = length ?ys" by simp
  next
    fix i e assume "i < length ?xs"
    then have i: "i < ?N" by simp
    have "float_to_rgb565 s (real i / real ?N) (amp1 ! i) = Inl e
        \<longleftrightarrow> float_to_rgb565 s (real i / real ?N) (amp2 ! i) = Inl e"
      by (rule float_to_rgb565_error)
    then show "?xs ! i = Inl e \<longleftrightarrow> ?ys ! i = Inl e" using i by simp
  qed
  have "map (\<lambda>i. float_to_rgb565 s (real i / real ?N) (amp1 ! i)) (take k [0..<?N])
      = map (\<lambda>i. float_to_rgb565 s (real i / real ?N) (amp2 ! i)) (take k [0..<?N])"
  proof (rule map_cong [OF refl])
    fix i assume "i \<in> set (take k [0..<?N])"
    then obtain j where j: "j < length (take k [0..<?N])" and ji: "take k [0..<?N] ! j = i"
      by (auto simp: in_set_conv_nth)
    from j have "j < k" and "j < ?N" by simp_all
    with ji have "i < k" by simp
    from take_nth_eq [OF assms(2) this]
    show "float_to_rgb565 s (real i / real ?N) (amp1 ! i)
        = float_to_rgb565 s (real i / real ?N) (amp2 ! i)" by simp
  qed
  then have tk: "take k ?xs = take k ?ys" by (simp only: take_map)
  have len: "length ?xs = length ?ys" by simp
  have c1: "color_map s amp1 =
      (case collect ?xs of Inl e \<Rightarrow> Inl e | Inr cs \<Rightarrow> Inr (map word_of_int cs))"
    unfolding color_map_def assms(1) ..
  have c2: "color_map s amp2 =
      (case collect ?ys of Inl e \<Rightarrow> Inl e | Inr cs \<Rightarrow> Inr (map word_of_int cs))"
    unfolding color_map_def ..
  have err: "color_map s amp1 = Inl e \<longleftrightarrow> color_map s amp2 = Inl e"
  proof -
    have "color_map s amp1 = Inl e \<longleftrightarrow> collect ?xs = Inl e"
      unfolding c1 by (cases "collect ?xs") simp_all
    also have "\<dots> \<longleftrightarrow> collect ?ys = Inl e" using rel by (rule collect_Inl_iff)
    also have "\<dots> \<longleftrightarrow> color_map s amp2 = Inl e"
      unfolding c2 by (cases "collect ?ys") simp_all
    finally show ?thesis .
  qed
  have val: "length r1 = length amp1 \<and> length r2 = length amp2 \<and> take k r1 = take k r2"
    if h: "color_map s amp1 = Inr r1" "color_map s amp2 = Inr r2"
  proof -
    from h(1) obtain as where a: "collect ?xs = Inr as" and r1: "r1 = map word_of_int as"
      unfolding c1 by (cases "collect ?xs") auto
    from h(2) obtain bs where b: "collect ?ys = Inr bs" and r2: "r2 = map word_of_int bs"
      unfolding c2 by (cases "collect ?ys") auto
    from collect_prefix [OF a b len tk]
    have "length as = ?N" "length bs = ?N" "take k as = take k bs" by simp_all
    then show ?thesis using r1 r2 assms(1) by (simp add: take_map)
  qed
  from err val show ?thesis by blast
qed

lemma prev_frame_update_static:
  assumes "prev_frame_update_fn s f = Inr s'"
  shows "interp_x s' = interp_x s \<and> use_frequency_mode s' = use_frequency_mode s"
  using assms
  by (auto simp: prev_frame_update_fn_def Let_def split: if_splits sum.splits prod.splits)

lemma commit_static:
  assumes "commit s f = Inr s'"
  shows "interp_x s' = interp_x s \<and> use_frequency_mode s' = use_frequency_mode s"
  using assms prev_frame_update_static [of s f s']
  by (auto simp: commit_def split: if_splits)

lemma compose_static:
  assumes "compose s interp rnd = Inr (s', f)"
  shows "interp_x s' = interp_x s \<and> use_frequency_mode s' = use_frequency_mode s"
  using assms
  by (auto simp: compose_def Let_def split: if_splits sum.splits)

lemma audio_callback_static:
  assumes "audio_callback s buf rnd = Inr s'"
  shows "interp_x s' = interp_x s \<and> use_frequency_mode s' = use_frequency_mode s"
proof -
  from assms obtain interp s1 f where
    c: "compose s interp rnd = Inr (s1, f)" and k: "commit s1 f = Inr s'"
    by (auto simp: audio_callback_def split: sum.splits prod.splits)
  from compose_static [OF c] commit_static [OF k] show ?thesis by simp
qed

lemma stream_static:
  assumes "stream s frames = Inr s'"
  shows "interp_x s' = interp_x s \<and> use_frequency_mode s' = use_frequency_mode s"
  using assms
proof (induction frames arbitrary: s)
  case Nil
  then show ?case by simp
next
  case (Cons p frames)
  obtain buf rnd where p: "p = (buf, rnd)" by (cases p)
  from Cons.prems p obtain s1 where
    a: "audio_callback s buf rnd = Inr s1" and r: "stream s1 frames = Inr s'"
    by (auto split: sum.splits)
  from audio_callback_static [OF a] Cons.IH [OF r] show ?case by simp
qed

lemma run_static:
  assumes "run (Bgwxfb_init cfg surface rnd0 lut) frames = Inr s"
  shows "interp_x s = linspace_open (real (cfg_blocksize cfg div 2 + 1))
                        (cfg_width cfg * cfg_height cfg)"
    and "use_frequency_mode s = cfg_freq cfg"
proof -
  let ?i = "Bgwxfb_init cfg surface rnd0 lut"
  have "stream (?i\<lparr> fb_array := zeros_like (fb_array ?i) \<rparr>) frames = Inr s"
    using assms by (simp add: run_def)
  from stream_static [OF this]
  have "interp_x s = interp_x ?i" and "use_frequency_mode s = use_frequency_mode ?i"
    by simp_all
  then show "interp_x s = linspace_open (real (cfg_blocksize cfg div 2 + 1))
                        (cfg_width cfg * cfg_height cfg)"
    and "use_frequency_mode s = cfg_freq cfg"
    by (simp_all add: Bgwxfb_init_def)
qed

lemma signal_extract_amplitude:
  assumes "\<not> use_frequency_mode s"
  shows "signal_extract s buf = Inr (map (\<lambda>x. min 1 (max 0 (\<bar>x\<bar> + amplitude_offset s))) buf)"
  using assms by (simp add: signal_extract_def)

lemma audio_callback_prefix:
  assumes "\<not> use_frequency_mode s" and "\<forall>x \<in> set (interp_x s). x < real L"
    and "length buf1 = length buf2" and "take (L + 1) buf1 = take (L + 1) buf2"
  shows "audio_callback s buf1 rnd = audio_callback s buf2 rnd"
proof -
  let ?g = "\<lambda>x. min 1 (max 0 (\<bar>x\<bar> + amplitude_offset s))"
  let ?a1 = "map ?g buf1" and ?a2 = "map ?g buf2"
  have e1: "signal_extract s buf1 = Inr ?a1" and e2: "signal_extract s buf2 = Inr ?a2"
    using assms(1) by (simp_all add: signal_extract_amplitude)
  have la: "length ?a1 = length ?a2" using assms(3) by simp
  have ta: "take (L + 1) ?a1 = take (L + 1) ?a2" using assms(4) by (simp only: take_map)
  note cm = color_map_prefix [OF la ta, of s]
  show ?thesis
  proof (cases "color_map s ?a1")
    case (Inl e)
    with cm have "color_map s ?a2 = Inl e" by blast
    with Inl e1 e2 show ?thesis by (simp add: audio_callback_def)
  next
    case (Inr r1)
    have "\<And>e. color_map s ?a2 \<noteq> Inl e" using cm Inr by (metis sum.distinct(1))
    then obtain r2 where r2: "color_map s ?a2 = Inr r2" by (cases "color_map s ?a2") blast+
    from cm Inr r2 have l: "length r1 = length r2" and t: "take (L + 1) r1 = take (L + 1) r2"
      using la by (metis length_map)+
    from spatial_interp_prefix [OF assms(2) l t]
    have "spatial_interp s r1 = spatial_interp s r2" .
    with Inr r2 e1 e2 show ?thesis by (simp add: audio_callback_def)
  qed
qed

lemma color_map_length:
  assumes "color_map s amp = Inr rgb"
  shows "length rgb = length amp"
proof -
  have "length amp = length amp" and "take 0 amp = take 0 amp" by simp_all
  from color_map_prefix [OF this]
  have "color_map s amp = Inr rgb \<and> color_map s amp = Inr rgb \<longrightarrow>
      length rgb = length amp \<and> length rgb = length amp \<and> take 0 rgb = take 0 rgb"
    by blast
  with assms show ?thesis by blast
qed

lemma half_signal:
  "signal_extract half_state [0, 0, 0, 0, 0, 0, 1, 1] = Inr [0, 0, 0, 0, 0, 0, 1, 1]"
  by (simp add: half_state_def half_cfg_def demo_cfg_def Bgwxfb_init_def signal_extract_def)

lemma half_color:
  "color_map half_state [0, 0, 0, 0, 0, 0, 1, 1] = Inr [0, 0, 0, 0, 0, 0, 65535, 65535]"
  by (simp add: half_state_def half_cfg_def demo_cfg_def Bgwxfb_init_def color_map_def
      float_to_rgb565_def py_int_def frac_def upt_conv_Cons Let_def)

lemma half_interp:
  "spatial_interp half_state [0, 0, 0, 0, 0, 0, 65535, 65535] = Inr [0, 0, 0, 0]"
  by (simp add: half_state_def half_cfg_def demo_cfg_def Bgwxfb_init_def spatial_interp_def
      linspace_open_def upt_conv_Cons np_interp_arange_def py_int_def)

lemma half_compose:
  "compose half_state [0, 0, 0, 0] rnd = Inr (half_state, [[0, 0], [0, 0]])"
  by (simp add: half_state_def half_cfg_def demo_cfg_def Bgwxfb_init_def compose_def
      raw_direct_def reshape2_def upt_conv_Cons Let_def)

lemma half_commit: "commit half_state [[0, 0], [0, 0]] = Inr half_state"
  by (simp add: half_state_def half_cfg_def demo_cfg_def Bgwxfb_init_def commit_def
      prev_frame_update_fn_def diff_mask_def zeros_like_def Let_def)

lemma half_callback:
  "audio_callback half_state [0, 0, 0, 0, 0, 0, 1, 1] rnd = Inr half_state"
  by (simp add: audio_callback_def half_signal half_color half_interp half_compose half_commit)

lemma half_run: "run half_state [] = Inr half_state"
  by (simp add: run_def half_state_def Bgwxfb_init_def zeros_like_def)

text \<open>
  C2. The claim is that the sample points span the bin range the Signal Extractor
  produced, \<open>[0, blockSize)\<close> in amplitude mode. In amplitude mode the extractor and the
  Color Mapper do produce \<open>blockSize\<close> values, but after any number of frames every
  sample point lies in \<open>[0, blockSize div 2 + 1)\<close>, the range of frequency mode, and the
  samples of a block from index \<open>blockSize div 2 + 2\<close> on never reach the surface: two
  blocks that agree below that index give the same result of \<open>audio_callback\<close>.
\<close>

theorem amplitude_mode_drops_upper_block:
  assumes "\<not> cfg_freq cfg"
    and "run (Bgwxfb_init cfg surface rnd0 lut) frames = Inr s"
    and "length buf1 = cfg_blocksize cfg" and "length buf2 = cfg_blocksize cfg"
    and "take (cfg_blocksize cfg div 2 + 2) buf1 = take (cfg_blocksize cfg div 2 + 2) buf2"
  shows "(\<exists>amp. signal_extract s buf1 = Inr amp \<and> length amp = cfg_blocksize cfg
            \<and> (\<forall>rgb. color_map s amp = Inr rgb \<longrightarrow> length rgb = cfg_blocksize cfg))
       \<and> (\<forall>x \<in> set (interp_x s). 0 \<le> x \<and> x < real (cfg_blocksize cfg div 2 + 1))
       \<and> audio_callback s buf1 rnd = audio_callback s buf2 rnd"
proof -
  let ?L = "cfg_blocksize cfg div 2 + 1"
  note st = run_static [OF assms(2)]
  have amp_mode: "\<not> use_frequency_mode s" using st(2) assms(1) by simp
  have pts: "\<forall>x \<in> set (interp_x s). 0 \<le> x \<and> x < real ?L"
    unfolding st(1) by (rule interp_x_below)
  then have below: "\<forall>x \<in> set (interp_x s). x < real ?L" by blast
  let ?amp = "map (\<lambda>x. min 1 (max 0 (\<bar>x\<bar> + amplitude_offset s))) buf1"
  have se: "signal_extract s buf1 = Inr ?amp"
    using amp_mode by (rule signal_extract_amplitude)
  have la: "length ?amp = cfg_blocksize cfg" using assms(3) by simp
  have lr: "\<forall>rgb. color_map s ?amp = Inr rgb \<longrightarrow> length rgb = cfg_blocksize cfg"
    using color_map_length la by metis
  have ex: "\<exists>amp. signal_extract s buf1 = Inr amp \<and> length amp = cfg_blocksize cfg
            \<and> (\<forall>rgb. color_map s amp = Inr rgb \<longrightarrow> length rgb = cfg_blocksize cfg)"
    using se la lr by blast
  have len: "length buf1 = length buf2" using assms(3,4) by simp
  have tk: "take (?L + 1) buf1 = take (?L + 1) buf2" using assms(5) by simp
  from audio_callback_prefix [OF amp_mode below len tk]
  have "audio_callback s buf1 rnd = audio_callback s buf2 rnd" .
  with ex pts show ?thesis by blast
qed

theorem amplitude_mode_drops_upper_block_witness:
  "\<not> cfg_freq half_cfg
   \<and> run half_state [] = Inr half_state
   \<and> length [0, 0, 0, 0, 0, 0, 1, 1 :: real] = cfg_blocksize half_cfg
   \<and> length [0, 0, 0, 0, 0, 0, 0, 0 :: real] = cfg_blocksize half_cfg
   \<and> take (cfg_blocksize half_cfg div 2 + 2) [0, 0, 0, 0, 0, 0, 1, 1 :: real]
       = take (cfg_blocksize half_cfg div 2 + 2) [0, 0, 0, 0, 0, 0, 0, 0]
   \<and> audio_callback half_state [0, 0, 0, 0, 0, 0, 1, 1] (\<lambda>_. 0) = Inr half_state
   \<and> audio_callback half_state [0, 0, 0, 0, 0, 0, 0, 0] (\<lambda>_. 0) = Inr half_state
   \<and> fb_array half_state = [[0, 0], [0, 0]]"
proof -
  have f: "\<not> cfg_freq half_cfg" by (simp add: half_cfg_def demo_cfg_def)
  have r: "run (Bgwxfb_init half_cfg [[0, 0], [0, 0]] (\<lambda>_. 0) (replicate 360 0xFFFF)) []
      = Inr half_state"
    using half_run by (simp only: half_state_def)
  have B: "cfg_blocksize half_cfg = 8" by (simp add: half_cfg_def)
  have l1: "length [0, 0, 0, 0, 0, 0, 1, 1 :: real] = cfg_blocksize half_cfg"
    and l2: "length [0, 0, 0, 0, 0, 0, 0, 0 :: real] = cfg_blocksize half_cfg"
    unfolding B by simp_all
  have t: "take (cfg_blocksize half_cfg div 2 + 2) [0, 0, 0, 0, 0, 0, 1, 1 :: real]
       = take (cfg_blocksize half_cfg div 2 + 2) [0, 0, 0, 0, 0, 0, 0, 0]"
    unfolding B by simp
  from amplitude_mode_drops_upper_block [OF f r l1 l2 t, of "\<lambda>_. 0"]
  have "audio_callback half_state [0, 0, 0, 0, 0, 0, 1, 1] (\<lambda>_. 0)
      = audio_callback half_state [0, 0, 0, 0, 0, 0, 0, 0] (\<lambda>_. 0)" by blast
  then have c2: "audio_callback half_state [0, 0, 0, 0, 0, 0, 0, 0] (\<lambda>_. 0) = Inr half_state"
    by (simp only: half_callback)
  have fb: "fb_array half_state = [[0, 0], [0, 0]]"
    by (simp add: half_state_def Bgwxfb_init_def)
  show ?thesis using f half_run l1 l2 t half_callback [of "\<lambda>_. 0"] c2 fb by blast
qed

text \<open>
  What holds of the resampling law: a source of length 1 gives \<open>width*height\<close> samples
  that all equal its single value, and a source whose length equals the target count
  \<open>width*height\<close> comes out unchanged when that count is also \<open>blockSize div 2 + 1\<close>, the
  number of bins of frequency mode.
\<close>

lemma interp_single_and_identity:
  "spatial_interp (Bgwxfb_init cfg surface rnd0 lut) [c] =
     Inr (replicate (cfg_width cfg * cfg_height cfg) c)
   \<and> (length rgb = cfg_width cfg * cfg_height cfg
        \<and> cfg_width cfg * cfg_height cfg = cfg_blocksize cfg div 2 + 1 \<longrightarrow>
      spatial_interp (Bgwxfb_init cfg surface rnd0 lut) rgb = Inr rgb)"
proof (intro conjI impI)
  show "spatial_interp (Bgwxfb_init cfg surface rnd0 lut) [c] =
     Inr (replicate (cfg_width cfg * cfg_height cfg) c)"
    by (simp add: spatial_interp_def np_interp_arange_single pixel_roundtrip interp_x_init
        linspace_open_def map_replicate_const)
next
  assume a: "length rgb = cfg_width cfg * cfg_height cfg
        \<and> cfg_width cfg * cfg_height cfg = cfg_blocksize cfg div 2 + 1"
  let ?n = "length rgb"
  let ?fp = "map (\<lambda>p. real (unat p)) rgb"
  have ne: "rgb \<noteq> []" using a by auto
  have pts: "interp_x (Bgwxfb_init cfg surface rnd0 lut) = map real [0..<?n]"
    using a by (simp add: interp_x_init linspace_open_def)
  have "map (\<lambda>x. word_of_int (py_int (np_interp_arange ?fp x))) (map real [0..<?n])
      = map (\<lambda>i. rgb ! i) [0..<?n]"
    by (simp add: np_interp_arange_at_index pixel_roundtrip)
  also have "\<dots> = rgb" by (rule map_nth)
  finally show "spatial_interp (Bgwxfb_init cfg surface rnd0 lut) rgb = Inr rgb"
    using ne pts by (simp add: spatial_interp_def)
qed



subsection \<open>Random map\<close>

lemma swap_entries_props:
  assumes "i < length xs" and "j < length xs"
  shows "length (swap_entries i j xs) = length xs"
    and "set (swap_entries i j xs) = set xs"
    and "distinct (swap_entries i j xs) = distinct xs"
  using assms by (simp_all add: swap_entries_def set_swap distinct_swap)

lemma np_shuffle_props:
  assumes "i < length xs"
  shows "length (np_shuffle rnd i xs) = length xs
       \<and> set (np_shuffle rnd i xs) = set xs
       \<and> distinct (np_shuffle rnd i xs) = distinct xs"
  using assms
proof (induction i arbitrary: xs)
  case 0
  then show ?case by simp
next
  case (Suc i)
  let ?j = "rnd (Suc i) mod (Suc i + 1)"
  let ?ys = "swap_entries (Suc i) ?j xs"
  have j: "?j < length xs"
  proof -
    have "?j < Suc i + 1" by (rule mod_less_divisor) simp
    with Suc.prems show ?thesis by linarith
  qed
  note sw = swap_entries_props [OF Suc.prems j]
  have "i < length ?ys" using Suc.prems sw(1) by simp
  from Suc.IH [OF this] sw show ?case by simp
qed

lemma np_permutation_is_permutation: "is_permutation n (np_permutation rnd n)"
proof (cases n)
  case 0
  then show ?thesis by (simp add: is_permutation_def np_permutation_def)
next
  case (Suc m)
  then have "n - 1 < length [0..<n]" by simp
  from np_shuffle_props [OF this, of rnd]
  show ?thesis by (simp add: is_permutation_def np_permutation_def)
qed

lemma np_permutation_length: "length (np_permutation rnd n) = n"
proof (cases n)
  case 0
  then show ?thesis by (simp add: np_permutation_def)
next
  case (Suc m)
  then have "n - 1 < length [0..<n]" by simp
  from np_shuffle_props [OF this, of rnd] show ?thesis by (simp add: np_permutation_def)
qed

lemma upt4: "[0..<4] = [0, 1, 2, 3]"
  by code_simp

lemma np_permutation_examples:
  "np_permutation (\<lambda>_. 0) 4 = [1, 2, 3, 0]" "np_permutation (\<lambda>_. 1) 4 = [0, 2, 3, 1]"
  by code_simp+

lemma is_permutation_length:
  assumes "is_permutation n m"
  shows "length m = n"
proof -
  from assms have "distinct m" and "set m = {0..<n}" by (simp_all add: is_permutation_def)
  then have "length m = card {0..<n}" by (metis distinct_card)
  then show ?thesis by simp
qed

lemma prev_frame_update_fields:
  assumes "prev_frame_update_fn s f = Inr s'"
  shows "random_map s' = random_map s \<and> width s' = width s \<and> height s' = height s
       \<and> use_random_map s' = use_random_map s"
  using assms
  by (auto simp: prev_frame_update_fn_def Let_def split: if_splits sum.splits prod.splits)

lemma commit_fields:
  assumes "commit s f = Inr s'"
  shows "random_map s' = random_map s \<and> width s' = width s \<and> height s' = height s
       \<and> use_random_map s' = use_random_map s"
  using assms prev_frame_update_fields [of s f s']
  by (auto simp: commit_def split: if_splits)

lemma compose_fields:
  assumes "compose s interp rnd = Inr (s', f)"
  shows "width s' = width s \<and> height s' = height s \<and> use_random_map s' = use_random_map s
       \<and> random_map s' = (if use_random_map s \<and> reshuffle_each_frame s
                           then np_permutation rnd (width s * height s)
                           else random_map s)"
  using assms
  by (auto simp: compose_def Let_def split: if_splits sum.splits)

lemma compose_perm:
  assumes "perm_inv s" and "compose s interp rnd = Inr (s', f)"
  shows "perm_inv s'"
  using compose_fields [OF assms(2)] assms(1) np_permutation_is_permutation
  by (auto simp: perm_inv_def)

lemma compose_random_frame:
  assumes "compose s interp rnd = Inr (s', f)" and "use_random_map s"
  shows "\<exists>g. gather (take (width s * height s) interp) (random_map s') = Inr g
           \<and> reshape2 (height s) (width s) g = Inr f"
  using assms
  by (auto simp: compose_def Let_def split: if_splits sum.splits)

lemma gather_ok:
  "\<forall>i \<in> set idx. i < length a \<Longrightarrow> gather a idx = Inr (map (\<lambda>i. a ! i) idx)"
  by (simp add: gather_def)

lemma compose_random_ok:
  assumes "perm_inv s" and "use_random_map s" and "width s * height s \<le> length interp"
  shows "\<exists>s' f. compose s interp rnd = Inr (s', f)"
proof -
  let ?n = "width s * height s"
  let ?s' = "if reshuffle_each_frame s then s\<lparr> random_map := np_permutation rnd ?n \<rparr> else s"
  let ?flat = "take ?n interp"
  have p: "is_permutation ?n (random_map ?s')"
    using assms(1) np_permutation_is_permutation by (simp add: perm_inv_def)
  have lf: "length ?flat = ?n" using assms(3) by simp
  have "\<forall>i \<in> set (random_map ?s'). i < length ?flat"
    using p lf by (simp add: is_permutation_def)
  then have g: "gather ?flat (random_map ?s') = Inr (map (\<lambda>i. ?flat ! i) (random_map ?s'))"
    by (rule gather_ok)
  have "length (map (\<lambda>i. ?flat ! i) (random_map ?s')) = height s * width s"
    using is_permutation_length [OF p] by (simp add: mult.commute)
  then obtain f where
    r: "reshape2 (height s) (width s) (map (\<lambda>i. ?flat ! i) (random_map ?s')) = Inr f"
    by (simp add: reshape2_def)
  have "compose s interp rnd = Inr (?s', f)"
    unfolding compose_def Let_def using assms(2) g r by simp
  then show ?thesis by blast
qed

lemma audio_callback_perm:
  assumes "perm_inv s" and "audio_callback s buf rnd = Inr s'"
  shows "perm_inv s' \<and> width s' = width s \<and> height s' = height s
       \<and> use_random_map s' = use_random_map s"
proof -
  from assms(2) obtain interp s1 f where
    c: "compose s interp rnd = Inr (s1, f)" and k: "commit s1 f = Inr s'"
    by (auto simp: audio_callback_def split: sum.splits prod.splits)
  from compose_perm [OF assms(1) c] compose_fields [OF c] commit_fields [OF k]
  show ?thesis by (auto simp: perm_inv_def)
qed

lemma stream_perm:
  assumes "perm_inv s" and "stream s frames = Inr s'"
  shows "perm_inv s' \<and> width s' = width s \<and> height s' = height s
       \<and> use_random_map s' = use_random_map s"
  using assms
proof (induction frames arbitrary: s)
  case Nil
  then show ?case by simp
next
  case (Cons p frames)
  obtain buf rnd where p: "p = (buf, rnd)" by (cases p)
  from Cons.prems(2) p obtain s1 where
    a: "audio_callback s buf rnd = Inr s1" and r: "stream s1 frames = Inr s'"
    by (auto split: sum.splits)
  from audio_callback_perm [OF Cons.prems(1) a]
  have s1: "perm_inv s1" "width s1 = width s" "height s1 = height s"
    "use_random_map s1 = use_random_map s" by simp_all
  from Cons.IH [OF s1(1) r] s1 show ?case by simp
qed

lemma run_perm:
  assumes "perm_inv s" and "run s frames = Inr s'"
  shows "perm_inv s' \<and> width s' = width s \<and> height s' = height s
       \<and> use_random_map s' = use_random_map s"
proof -
  let ?z = "s\<lparr> fb_array := zeros_like (fb_array s) \<rparr>"
  have i: "perm_inv ?z" using assms(1) by (simp add: perm_inv_def)
  have r: "stream ?z frames = Inr s'" using assms(2) by (simp add: run_def)
  from stream_perm [OF i r] show ?thesis by simp
qed

lemma init_fields:
  "width (Bgwxfb_init cfg surface rnd0 lut) = cfg_width cfg"
  "height (Bgwxfb_init cfg surface rnd0 lut) = cfg_height cfg"
  "random_map (Bgwxfb_init cfg surface rnd0 lut) =
     np_permutation rnd0 (cfg_width cfg * cfg_height cfg)"
  "use_random_map (Bgwxfb_init cfg surface rnd0 lut) = cfg_random cfg"
  by (simp_all add: Bgwxfb_init_def)

lemma init_perm: "perm_inv (Bgwxfb_init cfg surface rnd0 lut)"
  by (simp add: perm_inv_def init_fields np_permutation_is_permutation)

lemma np_permutation_examples2:
  "np_permutation (\<lambda>_. 2) 4 = [1, 0, 3, 2]"
  by code_simp

lemma rand_map0: "random_map rand_state = [1, 2, 3, 0]"
  by (simp add: rand_state_def rand_cfg_def demo_cfg_def Bgwxfb_init_def
      np_permutation_examples)

lemma rand_signal: "signal_extract rand_state [0, 1 / 2, 1, 1 / 4] = Inr [0, 1 / 2, 1, 1 / 4]"
  by (simp add: rand_state_def rand_cfg_def demo_cfg_def Bgwxfb_init_def signal_extract_def)

lemma rand_color:
  "color_map rand_state [0, 1 / 2, 1, 1 / 4] = Inr [0, 31727, 65535, 14823]"
  by (simp add: rand_state_def rand_cfg_def demo_cfg_def Bgwxfb_init_def color_map_def
      float_to_rgb565_def py_int_def frac_def upt_conv_Cons Let_def)

lemma rand_interp:
  "spatial_interp rand_state [0, 31727, 65535, 14823] = Inr [0, 23795, 48631, 52857]"
  by (simp add: rand_state_def rand_cfg_def demo_cfg_def Bgwxfb_init_def spatial_interp_def
      linspace_open_def upt_conv_Cons np_interp_arange_def py_int_def)

lemma rand_compose:
  "compose rand_state [0, 23795, 48631, 52857] (\<lambda>_. 2) =
     Inr (rand_state\<lparr> random_map := [1, 0, 3, 2] \<rparr>, [[23795, 0], [52857, 48631]])"
  by (simp add: rand_state_def rand_cfg_def demo_cfg_def Bgwxfb_init_def compose_def
      np_permutation_examples2 gather_def reshape2_def upt_conv_Cons Let_def)

lemma rand_commit:
  "commit (rand_state\<lparr> random_map := [1, 0, 3, 2] \<rparr>) [[23795, 0], [52857, 48631]] =
     Inr (rand_state\<lparr> random_map := [1, 0, 3, 2],
            fb_array := [[23795, 0], [52857, 48631]],
            prev_frame := [[23795, 0], [52857, 48631]] \<rparr>)"
  by (simp add: rand_state_def rand_cfg_def demo_cfg_def Bgwxfb_init_def commit_def
      prev_frame_update_fn_def diff_mask_def np_where_def first_last_def assign_rect_def
      slice_def zeros_like_def upt_conv_Cons Let_def)

lemma rand_cleared: "rand_state\<lparr> fb_array := zeros_like (fb_array rand_state) \<rparr> = rand_state"
  by (simp add: rand_state_def Bgwxfb_init_def zeros_like_def)

lemma rand_run:
  "run rand_state [([0, 1 / 2, 1, 1 / 4], \<lambda>_. 2)] =
     Inr (rand_state\<lparr> random_map := [1, 0, 3, 2],
            fb_array := [[23795, 0], [52857, 48631]],
            prev_frame := [[23795, 0], [52857, 48631]] \<rparr>)"
  unfolding run_def rand_cleared
  by (simp add: audio_callback_def rand_signal rand_color rand_interp rand_compose rand_commit
      del: One_nat_def)

lemma rand_compose2:
  "compose (rand_state\<lparr> random_map := [1, 0, 3, 2],
              fb_array := [[23795, 0], [52857, 48631]],
              prev_frame := [[23795, 0], [52857, 48631]] \<rparr>) [10, 20, 30, 40] (\<lambda>_. 0) =
     Inr (rand_state\<lparr> random_map := [1, 2, 3, 0],
            fb_array := [[23795, 0], [52857, 48631]],
            prev_frame := [[23795, 0], [52857, 48631]] \<rparr>, [[20, 30], [40, 10]])"
  by (simp add: rand_state_def rand_cfg_def demo_cfg_def Bgwxfb_init_def compose_def
      np_permutation_examples gather_def reshape2_def upt_conv_Cons Let_def)

text \<open>
  C5. After any number of frames in random-map mode, with or without a reshuffle on
  each frame, the random map is a permutation of \<open>[0, width*height)\<close>: no index repeats
  and none is missing. Whenever the random strategy composes the next frame, the map it
  reindexes the samples through is such a permutation, and the frame is the reshape of
  the reindexed samples; with at least \<open>width*height\<close> samples it does compose a frame.
\<close>

theorem random_map_is_permutation:
  assumes "cfg_random cfg"
    and "run (Bgwxfb_init cfg surface rnd0 lut) frames = Inr s"
  shows "is_permutation (cfg_width cfg * cfg_height cfg) (random_map s)
       \<and> (\<forall>s' f. compose s interp rnd = Inr (s', f) \<longrightarrow>
             is_permutation (cfg_width cfg * cfg_height cfg) (random_map s')
             \<and> (\<exists>g. gather (take (cfg_width cfg * cfg_height cfg) interp) (random_map s')
                      = Inr g
                    \<and> reshape2 (cfg_height cfg) (cfg_width cfg) g = Inr f))
       \<and> (cfg_width cfg * cfg_height cfg \<le> length interp \<longrightarrow>
             (\<exists>s' f. compose s interp rnd = Inr (s', f)))"
proof -
  from run_perm [OF init_perm assms(2)]
  have s: "perm_inv s" "width s = cfg_width cfg" "height s = cfg_height cfg"
    "use_random_map s" using assms(1) by (simp_all add: init_fields)
  have a: "is_permutation (cfg_width cfg * cfg_height cfg) (random_map s)"
    using s(1-3) by (simp add: perm_inv_def)
  have b: "is_permutation (cfg_width cfg * cfg_height cfg) (random_map s')
      \<and> (\<exists>g. gather (take (cfg_width cfg * cfg_height cfg) interp) (random_map s') = Inr g
             \<and> reshape2 (cfg_height cfg) (cfg_width cfg) g = Inr f)"
    if c: "compose s interp rnd = Inr (s', f)" for s' f
  proof -
    from compose_perm [OF s(1) c] compose_fields [OF c] s(2,3)
    have "is_permutation (cfg_width cfg * cfg_height cfg) (random_map s')"
      by (simp add: perm_inv_def)
    moreover from compose_random_frame [OF c s(4)] s(2,3)
    have "\<exists>g. gather (take (cfg_width cfg * cfg_height cfg) interp) (random_map s') = Inr g
             \<and> reshape2 (cfg_height cfg) (cfg_width cfg) g = Inr f" by simp
    ultimately show ?thesis by blast
  qed
  have c: "cfg_width cfg * cfg_height cfg \<le> length interp \<longrightarrow>
      (\<exists>s' f. compose s interp rnd = Inr (s', f))"
    using compose_random_ok [OF s(1) s(4), of interp rnd] s(2,3) by simp
  from a b c show ?thesis by blast
qed

theorem random_map_is_permutation_witness:
  "cfg_random rand_cfg
   \<and> (\<exists>s s' f. run rand_state [([0, 1 / 2, 1, 1 / 4], \<lambda>_. 2)] = Inr s
         \<and> random_map s = [1, 0, 3, 2]
         \<and> compose s [10, 20, 30, 40] (\<lambda>_. 0) = Inr (s', f)
         \<and> random_map s' = [1, 2, 3, 0]
         \<and> f = [[20, 30], [40, 10]]
         \<and> is_permutation (cfg_width rand_cfg * cfg_height rand_cfg) (random_map s)
         \<and> is_permutation (cfg_width rand_cfg * cfg_height rand_cfg) (random_map s'))"
proof -
  let ?F = "[[23795, 0], [52857, 48631]] :: frame"
  let ?s = "rand_state\<lparr> random_map := [1, 0, 3, 2], fb_array := ?F, prev_frame := ?F \<rparr>"
  let ?s' = "rand_state\<lparr> random_map := [1, 2, 3, 0], fb_array := ?F, prev_frame := ?F \<rparr>"
  have r: "cfg_random rand_cfg" by (simp add: rand_cfg_def)
  have run1: "run (Bgwxfb_init rand_cfg [[0, 0], [0, 0]] (\<lambda>_. 0) (replicate 360 0xFFFF))
      [([0, 1 / 2, 1, 1 / 4], \<lambda>_. 2)] = Inr ?s"
    using rand_run by (simp only: rand_state_def)
  have c: "compose ?s [10, 20, 30, 40] (\<lambda>_. 0) = Inr (?s', [[20, 30], [40, 10]])"
    by (rule rand_compose2)
  from random_map_is_permutation [OF r run1, of "[10, 20, 30, 40]" "\<lambda>_. 0"] c
  have "is_permutation (cfg_width rand_cfg * cfg_height rand_cfg) (random_map ?s)"
    and "is_permutation (cfg_width rand_cfg * cfg_height rand_cfg) (random_map ?s')"
    by blast+
  moreover have "random_map ?s = [1, 0, 3, 2]" "random_map ?s' = [1, 2, 3, 0]" by simp_all
  moreover have "run rand_state [([0, 1 / 2, 1, 1 / 4], \<lambda>_. 2)] = Inr ?s" by (rule rand_run)
  ultimately show ?thesis using r c by blast
qed

end
